theory Spec2Isabelle
  imports Main
begin

section \<open>JavaScript values\<close>

text \<open>
  Requests, actions and extraction specs are parsed JSON of any shape, and the code
  tests them with \<^verbatim>\<open>typeof\<close>, truthiness and \<^verbatim>\<open>===\<close>. \<open>JUndef\<close> is
  \<^verbatim>\<open>undefined\<close>, the value of a missing property. \<open>JNum n\<close> is the number that
  \<^verbatim>\<open>JSON.parse\<close> reads from the integer literal \<open>n\<close>: the nearest double, which is
  \<open>n\<close> itself up to \<open>2 ^ 53\<close>. Only \<^verbatim>\<open>String\<close> tells the two apart, and it does the
  rounding. Fractions do not occur. The keys of an object are distinct.
\<close>

datatype json =
    JUndef
  | JNull
  | JBool bool
  | JNum int
  | JStr string
  | JArr "json list"
  | JObj "(string \<times> json) list"

text \<open>Property access that does not throw (\<^verbatim>\<open>a?.type\<close>, and \<^verbatim>\<open>a.selector\<close> on a
  value that is neither \<^verbatim>\<open>null\<close> nor \<^verbatim>\<open>undefined\<close>).\<close>

fun field :: "json \<Rightarrow> string \<Rightarrow> json" where
  "field (JObj kvs) k = (case map_of kvs k of None \<Rightarrow> JUndef | Some v \<Rightarrow> v)"
| "field v k = JUndef"

fun truthy :: "json \<Rightarrow> bool" where
  "truthy JUndef = False"
| "truthy JNull = False"
| "truthy (JBool b) = b"
| "truthy (JNum n) = (n \<noteq> 0)"
| "truthy (JStr s) = (s \<noteq> [])"
| "truthy (JArr xs) = True"
| "truthy (JObj kvs) = True"

fun is_number :: "json \<Rightarrow> bool" where
  "is_number (JNum n) = True"
| "is_number v = False"

fun is_string :: "json \<Rightarrow> bool" where
  "is_string (JStr s) = True"
| "is_string v = False"

text \<open>\<^verbatim>\<open>a ?? b\<close> and \<^verbatim>\<open>a || b\<close>.\<close>

definition nullish_or :: "json \<Rightarrow> json \<Rightarrow> json" where
  "nullish_or a b = (if a = JUndef \<or> a = JNull then b else a)"

definition truthy_or :: "json \<Rightarrow> json \<Rightarrow> json" where
  "truthy_or a b = (if truthy a then a else b)"

text \<open>\<^verbatim>\<open>String(v)\<close>.\<close>

fun digit_char :: "nat \<Rightarrow> char" where
  "digit_char n = (''0123456789'' ! (n mod 10))"

fun show_nat :: "nat \<Rightarrow> string" where
  "show_nat n = (if n < 10 then [digit_char n] else show_nat (n div 10) @ [digit_char n])"

fun join_with :: "string \<Rightarrow> string list \<Rightarrow> string" where
  "join_with sep [] = []"
| "join_with sep [x] = x"
| "join_with sep (x # y # ys) = x @ sep @ join_with sep (y # ys)"

text \<open>
  \<^verbatim>\<open>String\<close> of a number is the shortest decimal that reads back as the same double,
  padded with zeros below \<open>10 ^ 21\<close> and in exponent notation from there on.
  \<open>nearest_double\<close> rounds an integer to mantissa and binary exponent, ties to the even
  mantissa, and is \<open>None\<close> beyond the largest double.
\<close>

function show_pos :: "int \<Rightarrow> string" where
  "show_pos n =
     (if n < 10 then [digit_char (nat n)]
      else show_pos (n div 10) @ [digit_char (nat (n mod 10))])"
  by pat_completeness auto
termination by (relation "measure nat") auto

function bit_length :: "int \<Rightarrow> nat" where
  "bit_length n = (if n \<le> 0 then 0 else Suc (bit_length (n div 2)))"
  by pat_completeness auto
termination by (relation "measure nat") auto

definition nearest_double :: "int \<Rightarrow> (int \<times> nat) option" where
  "nearest_double a =
     (if a < 2 ^ 53 then Some (a, 0)
      else
        let e = bit_length a - 53;
            q = a div 2 ^ e;
            r = a mod 2 ^ e;
            m = (if 2 * r > 2 ^ e \<or> (2 * r = 2 ^ e \<and> odd q) then q + 1 else q);
            (m', e') = (if m = 2 ^ 53 then (2 ^ 52, e + 1) else (m, e))
        in if e' > 971 then None else Some (m', e'))"

text \<open>
  Whether the integer \<open>c\<close> reads back as the double \<open>m * 2 ^ e\<close>, for \<open>e > 0\<close>: it lies
  within half a gap of it, the bounds included for an even mantissa. Everything is
  multiplied by four, which makes the half gaps integers.
\<close>

definition round_trips :: "int \<Rightarrow> nat \<Rightarrow> int \<Rightarrow> bool" where
  "round_trips m e c =
     (let d4 = 4 * m * 2 ^ e;
          up4 = 2 * 2 ^ e;
          down4 = (if m = 2 ^ 52 then 2 ^ e else 2 * 2 ^ e);
          c4 = 4 * c
      in if even m then d4 - down4 \<le> c4 \<and> c4 \<le> d4 + up4
         else d4 - down4 < c4 \<and> c4 < d4 + up4)"

text \<open>The decimals of \<open>k\<close> significant digits that read back, the nearest first.\<close>

definition candidates_of :: "int \<Rightarrow> nat \<Rightarrow> nat \<Rightarrow> int list" where
  "candidates_of m e k =
     (let d = m * 2 ^ e;
          len = length (show_pos d);
          p = 10 ^ (len - k);
          lo = (d div p) * p;
          hi = lo + p;
          near = (if d - lo \<le> hi - d then [lo, hi] else [hi, lo])
      in filter (round_trips m e) near)"

fun shortest :: "int \<Rightarrow> nat \<Rightarrow> nat list \<Rightarrow> int" where
  "shortest m e [] = m * 2 ^ e"
| "shortest m e (k # ks) =
     (case candidates_of m e k of [] \<Rightarrow> shortest m e ks | c # cs \<Rightarrow> c)"

definition strip_zeros :: "string \<Rightarrow> string" where
  "strip_zeros s = rev (dropWhile (\<lambda>c. c = CHR ''0'') (rev s))"

definition number_string :: "int \<Rightarrow> string" where
  "number_string a =
     (case nearest_double a of
        None \<Rightarrow> ''Infinity''
      | Some (m, e) \<Rightarrow>
          if e = 0 then show_pos m
          else
            let digits = show_pos (shortest m e [1..<18]) in
            if length digits \<le> 21 then digits
            else (case strip_zeros digits of
                    [] \<Rightarrow> ''0''
                  | [c] \<Rightarrow> c # ''e+'' @ show_nat (length digits - 1)
                  | c # cs \<Rightarrow>
                      c # CHR ''.'' # cs @ ''e+'' @ show_nat (length digits - 1)))"

fun js_String :: "json \<Rightarrow> string" where
  "js_String JUndef = ''undefined''"
| "js_String JNull = ''null''"
| "js_String (JBool b) = (if b then ''true'' else ''false'')"
| "js_String (JNum n) =
     (if n < 0 then CHR ''-'' # number_string (- n) else number_string n)"
| "js_String (JStr s) = s"
| "js_String (JArr xs) =
     join_with '','' (map (\<lambda>x. if x = JUndef \<or> x = JNull then [] else js_String x) xs)"
| "js_String (JObj kvs) = ''[object Object]''"

text \<open>
  The conversion to a number that comparisons, \<^verbatim>\<open>Math.min\<close> and timers apply:
  \<open>None\<close> is \<^verbatim>\<open>NaN\<close>. A boolean is 0 or 1, \<^verbatim>\<open>null\<close> is 0, \<^verbatim>\<open>undefined\<close> and an
  object are \<^verbatim>\<open>NaN\<close>, an array goes through its string. The numeric reading of a
  string (\<open>reader\<close>) is left to the environment.
\<close>

fun to_number :: "(string \<Rightarrow> int option) \<Rightarrow> json \<Rightarrow> int option" where
  "to_number reader (JNum n) = Some n"
| "to_number reader (JBool b) = Some (if b then 1 else 0)"
| "to_number reader JNull = Some 0"
| "to_number reader JUndef = None"
| "to_number reader (JStr s) = reader s"
| "to_number reader (JArr xs) = reader (js_String (JArr xs))"
| "to_number reader (JObj kvs) = None"

text \<open>The delay of \<^verbatim>\<open>setTimeout(f, after)\<close> in Node: one millisecond unless
  \<^verbatim>\<open>after\<close> is a number from 1 to \<open>2 ^ 31 - 1\<close>.\<close>

definition timer_delay :: "int option \<Rightarrow> int" where
  "timer_delay after =
     (case after of
        None \<Rightarrow> 1
      | Some n \<Rightarrow> if 1 \<le> n \<and> n \<le> 2147483647 then n else 1)"

section \<open>Concurrency limiter (createLimiter)\<close>

text \<open>
  \<^verbatim>\<open>createLimiter(limit)\<close> closes over a counter \<^verbatim>\<open>active\<close> and an array
  \<^verbatim>\<open>queue\<close>. \<^verbatim>\<open>enqueue\<close> pushes an item and calls \<^verbatim>\<open>setImmediate(runNext)\<close>;
  \<^verbatim>\<open>runNext\<close> returns when \<^verbatim>\<open>active >= limit\<close> or when the queue is empty, and
  otherwise shifts the oldest item, increments \<^verbatim>\<open>active\<close> and starts it; the
  \<^verbatim>\<open>finally\<close> handler of a started item decrements \<^verbatim>\<open>active\<close> and calls
  \<^verbatim>\<open>setImmediate(runNext)\<close> again.

  The closure state is a record. Every scheduled callback is the same \<^verbatim>\<open>runNext\<close>, so
  the event loop's list of scheduled callbacks is the counter \<open>immediates\<close>. Three
  fields are bookkeeping of the model and are never read by the code's decisions:
  \<open>running\<close> (started, not yet settled), \<open>dispatched\<close> (start order) and
  \<open>submitted\<close> (enqueue order).
\<close>

type_synonym task = nat

record limiter =
  limit :: nat
  active :: nat
  queue :: "task list"
  immediates :: nat
  running :: "task list"
  dispatched :: "task list"
  submitted :: "task list"

definition createLimiter :: "nat \<Rightarrow> limiter" where
  "createLimiter n =
     \<lparr>limit = n, active = 0, queue = [], immediates = 0,
      running = [], dispatched = [], submitted = []\<rparr>"

definition runNext :: "limiter \<Rightarrow> limiter" where
  "runNext s =
     (if active s \<ge> limit s then s
      else (case queue s of
              [] \<Rightarrow> s
            | item # rest \<Rightarrow>
                s\<lparr>queue := rest, active := active s + 1,
                  running := running s @ [item],
                  dispatched := dispatched s @ [item]\<rparr>))"

definition enqueue :: "task \<Rightarrow> limiter \<Rightarrow> limiter" where
  "enqueue fn s =
     s\<lparr>queue := queue s @ [fn], immediates := immediates s + 1,
       submitted := submitted s @ [fn]\<rparr>"

text \<open>The \<^verbatim>\<open>finally\<close> handler of a started item.\<close>

definition settle :: "task \<Rightarrow> limiter \<Rightarrow> limiter" where
  "settle fn s =
     s\<lparr>active := active s - 1, immediates := immediates s + 1,
       running := remove1 fn (running s)\<rparr>"

text \<open>
  What can happen to a limiter: a submission, one scheduled \<^verbatim>\<open>runNext\<close> callback
  firing, or a started task settling. A callback can fire only if one is scheduled and a
  task can settle only while it runs; \<open>limiter_step\<close> is \<open>None\<close> otherwise.
\<close>

datatype limiter_event = Enqueue task | Tick | Settle task

fun limiter_step :: "limiter_event \<Rightarrow> limiter \<Rightarrow> limiter option" where
  "limiter_step (Enqueue fn) s = Some (enqueue fn s)"
| "limiter_step Tick s =
     (if immediates s = 0 then None
      else Some (runNext (s\<lparr>immediates := immediates s - 1\<rparr>)))"
| "limiter_step (Settle fn) s =
     (if fn \<in> set (running s) then Some (settle fn s) else None)"

fun limiter_run :: "limiter_event list \<Rightarrow> limiter \<Rightarrow> limiter option" where
  "limiter_run [] s = Some s"
| "limiter_run (e # es) s = (case limiter_step e s of None \<Rightarrow> None | Some s' \<Rightarrow> limiter_run es s')"

text \<open>The invariant of the limiter; the last conjunct says that enough callbacks
  are scheduled for the tasks that could start.\<close>

definition limiter_inv :: "limiter \<Rightarrow> bool" where
  "limiter_inv s \<longleftrightarrow>
     active s \<le> limit s \<and>
     length (running s) = active s \<and>
     dispatched s @ queue s = submitted s \<and>
     min (length (queue s)) (limit s - active s) \<le> immediates s"

section \<open>Heuristic mute (clickMuteHeuristic)\<close>

text \<open>
  The regular expressions of \<^verbatim>\<open>score\<close> are alternations of literal words, tested
  anywhere in the lower-cased text: \<open>regex_test\<close> is a substring test for one of the
  alternatives. Element texts are ASCII strings; \<open>toLowerCase\<close> maps \<open>A\<close> to \<open>Z\<close>.
\<close>

fun starts_with :: "string \<Rightarrow> string \<Rightarrow> bool" where
  "starts_with [] s = True"
| "starts_with (p # ps) [] = False"
| "starts_with (p # ps) (c # cs) = (p = c \<and> starts_with ps cs)"

fun str_includes :: "string \<Rightarrow> string \<Rightarrow> bool" where
  "str_includes p [] = (p = [])"
| "str_includes p (c # cs) = (starts_with p (c # cs) \<or> str_includes p cs)"

definition regex_test :: "string list \<Rightarrow> string \<Rightarrow> bool" where
  "regex_test alts t = list_ex (\<lambda>p. str_includes p t) alts"

definition lower_char :: "char \<Rightarrow> char" where
  "lower_char c =
     (case map_of (zip ''ABCDEFGHIJKLMNOPQRSTUVWXYZ'' ''abcdefghijklmnopqrstuvwxyz'') c of
        Some d \<Rightarrow> d | None \<Rightarrow> c)"

definition toLowerCase :: "string \<Rightarrow> string" where
  "toLowerCase s = map lower_char s"

text \<open>
  An element of the page, as far as \<^verbatim>\<open>clickMuteHeuristic\<close> looks at it: whether it
  matches \<^verbatim>\<open>button, [role="button"], a, .btn\<close>, its text
  (\<^verbatim>\<open>el.innerText || el.textContent || ''\<close>), whether it carries the attribute
  \<^verbatim>\<open>data-ww-click="1"\<close>, and whether it is rendered, so that a click has a point
  to go to. A page is the list of its elements in document order.
\<close>

record element =
  clickable :: bool
  innerText :: string
  ww_click :: bool
  rendered :: bool

type_synonym page = "element list"

definition score :: "element \<Rightarrow> int" where
  "score el =
     (let t = toLowerCase (innerText el);
          s0 = 0;
          s1 = (if regex_test [''sound'', ''audio'', ''music'', ''zvuk'', ''zvuky'', ''hudba''] t
                then s0 + 2 else s0);
          s2 = (if regex_test [''no'', ''off'', ''mute'', ''disable'', ''bez'', ''vyp''] t
                then s1 + 3 else s1);
          s3 = (if regex_test [''accept'', ''ok'', ''yes'', ''ano''] t
                then s2 - 1 else s2)
      in s3)"

text \<open>\<^verbatim>\<open>document.querySelectorAll('button, [role="button"], a, .btn')\<close>, each
  element with its position in the document.\<close>

definition candidates :: "page \<Rightarrow> (nat \<times> element) list" where
  "candidates pg = filter (\<lambda>(i, el). clickable el) (enumerate 0 pg)"

text \<open>The loop \<^verbatim>\<open>for (const el of candidates)\<close> over \<^verbatim>\<open>best\<close> and
  \<^verbatim>\<open>bestScore\<close>.\<close>

fun best_loop :: "(nat \<times> element) list \<Rightarrow> nat option \<times> int \<Rightarrow> nat option \<times> int" where
  "best_loop [] acc = acc"
| "best_loop ((i, el) # rest) (best, bestScore) =
     (let s = score el
      in if s > bestScore then best_loop rest (Some i, s)
         else best_loop rest (best, bestScore))"

text \<open>
  The function evaluated in the page: it marks the best element with
  \<^verbatim>\<open>data-ww-click="1"\<close> and returns the selector \<^verbatim>\<open>[data-ww-click="1"]\<close>
  (\<open>True\<close>), or returns \<^verbatim>\<open>null\<close> (\<open>False\<close>). It removes no marker.
\<close>

definition mute_evaluate :: "page \<Rightarrow> page \<times> bool" where
  "mute_evaluate pg =
     (case best_loop (candidates pg) (None, 0) of
        (Some i, bestScore) \<Rightarrow>
          if bestScore \<ge> 3 then (pg[i := (pg ! i)\<lparr>ww_click := True\<rparr>], True)
          else (pg, False)
      | (None, bestScore) \<Rightarrow> (pg, False))"

text \<open>\<^verbatim>\<open>page.click('[data-ww-click="1"]')\<close> clicks the first element of the document
  that matches the selector; it throws when none does, and when that element is not
  rendered.\<close>

definition page_click_marked :: "page \<Rightarrow> string + nat" where
  "page_click_marked pg =
     (case filter (\<lambda>(i, el). ww_click el) (enumerate 0 pg) of
        [] \<Rightarrow> Inl ''No element found for selector: [data-ww-click=\"1\"]''
      | (i, el) # rest \<Rightarrow>
          if rendered el then Inr i
          else Inl ''Node is either not clickable or not an Element'')"

text \<open>The result is the page after the call and the position of the clicked element,
  \<open>None\<close> when nothing was clicked.\<close>

definition clickMuteHeuristic :: "page \<Rightarrow> string + (page \<times> nat option)" where
  "clickMuteHeuristic pg =
     (case mute_evaluate pg of
        (pg', True) \<Rightarrow>
          (case page_click_marked pg' of
             Inl e \<Rightarrow> Inl e
           | Inr i \<Rightarrow> Inr (pg', Some i))
      | (pg', False) \<Rightarrow> Inr (pg', None))"

text \<open>A button without marker, and a link that carries the marker already, both
  rendered.\<close>

definition btn :: "string \<Rightarrow> element" where
  "btn t = \<lparr>clickable = True, innerText = t, ww_click = False, rendered = True\<rparr>"

definition marked_link :: "string \<Rightarrow> element" where
  "marked_link t = \<lparr>clickable = True, innerText = t, ww_click = True, rendered = True\<rparr>"

section \<open>Paint wait (waitForCanvasPaint)\<close>

text \<open>
  The first \<^verbatim>\<open>canvas\<close> of the document, as far as the polled function reads it:
  whether \<^verbatim>\<open>getContext('2d')\<close> returns a context, its \<^verbatim>\<open>width\<close> and
  \<^verbatim>\<open>height\<close>, whether it is origin-tainted, and its pixels (red, green, blue,
  alpha) by column and row. \<^verbatim>\<open>getImageData\<close> throws on an empty rectangle and on a
  tainted canvas, and otherwise returns the rectangle row by row.
\<close>

type_synonym rgba = "nat \<times> nat \<times> nat \<times> nat"

record canvas =
  has_2d :: bool
  tainted :: bool
  width :: nat
  height :: nat
  pixel :: "nat \<Rightarrow> nat \<Rightarrow> rgba"

definition getImageData :: "canvas \<Rightarrow> nat \<Rightarrow> nat \<Rightarrow> string + rgba list" where
  "getImageData c w h =
     (if w = 0 \<or> h = 0 then Inl ''IndexSizeError''
      else if tainted c then Inl ''SecurityError''
      else Inr (concat (map (\<lambda>y. map (\<lambda>x. pixel c x y) [0..<w]) [0..<h])))"

definition pixel_painted :: "rgba \<Rightarrow> bool" where
  "pixel_painted p = (case p of (r, g, b, a) \<Rightarrow> a \<noteq> 0 \<and> \<not> (r = 255 \<and> g = 255 \<and> b = 255))"

text \<open>The function evaluated in the page at each poll; \<open>None\<close> is a document without
  canvas. The \<^verbatim>\<open>catch\<close> takes every error of \<^verbatim>\<open>getImageData\<close>.\<close>

definition painted :: "canvas option \<Rightarrow> bool" where
  "painted doc =
     (case doc of
        None \<Rightarrow> False
      | Some c \<Rightarrow>
          if \<not> has_2d c then True
          else (case getImageData c (min 64 (width c)) (min 64 (height c)) of
                  Inl e \<Rightarrow> True
                | Inr img \<Rightarrow> list_ex pixel_painted img))"

text \<open>
  The environment of the loop: the reading of \<^verbatim>\<open>Date.now()\<close> at entry, what the
  \<open>i\<close>-th \<^verbatim>\<open>page.evaluate\<close> meets (the document, or the message it rejects with, as
  when the page has been closed), the milliseconds it takes, the milliseconds by which
  the \<open>i\<close>-th timer fires late, and the numeric reading of strings.
\<close>

record paint_env =
  clock_start :: int
  poll :: "nat \<Rightarrow> string + canvas option"
  poll_ms :: "nat \<Rightarrow> int"
  timer_late :: "nat \<Rightarrow> int"
  reader :: "string \<Rightarrow> int option"

text \<open>\<^verbatim>\<open>Date.now() - t0 > timeoutMs\<close>, which is false for \<^verbatim>\<open>NaN\<close>.\<close>

definition exceeds :: "int \<Rightarrow> int option \<Rightarrow> bool" where
  "exceeds elapsed bound = (case bound of None \<Rightarrow> False | Some n \<Rightarrow> elapsed > n)"

text \<open>
  The loop, from poll \<open>i\<close> begun at clock reading \<open>t\<close>. After a poll that is not
  painted and not past the deadline it sleeps for \<^verbatim>\<open>intervalMs\<close> and polls again.
  The loop has no bound of its own, so it is a partial function: \<open>None\<close> is a loop that
  never returns.
\<close>

partial_function (option) paint_loop ::
    "paint_env \<Rightarrow> int \<Rightarrow> json \<Rightarrow> json \<Rightarrow> nat \<Rightarrow> int \<Rightarrow> (string + unit) option" where
  "paint_loop P t0 timeoutMs intervalMs i t =
     (case poll P i of
        Inl e \<Rightarrow> Some (Inl e)
      | Inr doc \<Rightarrow>
          if painted doc then Some (Inr ())
          else if exceeds (t + poll_ms P i - t0) (to_number (reader P) timeoutMs)
            then Some (Inl ''waitForCanvasPaint timeout'')
          else paint_loop P t0 timeoutMs intervalMs (Suc i)
                 (t + poll_ms P i + timer_delay (to_number (reader P) intervalMs)
                    + timer_late P i))"

definition waitForCanvasPaint :: "paint_env \<Rightarrow> json \<Rightarrow> json \<Rightarrow> (string + unit) option" where
  "waitForCanvasPaint P timeoutMs intervalMs =
     paint_loop P (clock_start P) timeoutMs intervalMs 0 (clock_start P)"

text \<open>The clock readings at which the polls begin, as long as the loop goes on.\<close>

fun poll_time :: "paint_env \<Rightarrow> json \<Rightarrow> nat \<Rightarrow> int" where
  "poll_time P intervalMs 0 = clock_start P"
| "poll_time P intervalMs (Suc i) =
     poll_time P intervalMs i + poll_ms P i + timer_delay (to_number (reader P) intervalMs)
       + timer_late P i"

text \<open>
  Three canvases with a 2D context and no taint: two pixels all white, two pixels of
  which one is dark and opaque, and one of width 0, as
  \<^verbatim>\<open><canvas width="0" height="0">\<close> gives. A page that shows the same canvas at
  every poll, where a poll takes 3 ms and timers fire 1 ms late; and a page that shows
  the white canvas for two polls and then the drawn one.
\<close>

definition blank :: canvas where
  "blank = \<lparr>has_2d = True, tainted = False, width = 2, height = 1,
            pixel = (\<lambda>x y. (255, 255, 255, 255))\<rparr>"

definition drawn :: canvas where
  "drawn = \<lparr>has_2d = True, tainted = False, width = 2, height = 1,
            pixel = (\<lambda>x y. if x = 1 then (10, 20, 30, 255) else (0, 0, 0, 0))\<rparr>"

definition empty_canvas :: canvas where
  "empty_canvas = \<lparr>has_2d = True, tainted = False, width = 0, height = 0,
                   pixel = (\<lambda>x y. (0, 0, 0, 0))\<rparr>"

definition still :: "canvas \<Rightarrow> paint_env" where
  "still c = \<lparr>clock_start = 1000, poll = (\<lambda>i. Inr (Some c)), poll_ms = (\<lambda>i. 3),
              timer_late = (\<lambda>i. 1), reader = (\<lambda>s. None)\<rparr>"

definition slow_page :: paint_env where
  "slow_page = (still blank)\<lparr>poll := (\<lambda>i. if i < 2 then Inr (Some blank) else Inr (Some drawn))\<rparr>"

section \<open>Extraction (performExtracts)\<close>

text \<open>
  A matched element, as far as the extraction reads it: \<^verbatim>\<open>textContent\<close>, its
  attributes by their stored names, \<^verbatim>\<open>outerHTML\<close>, and whether it is an HTML element
  of an HTML document. The final page state is the function \<^verbatim>\<open>querySelectorAll\<close>: the
  matches of a selector in document order, or the message of the error it throws for a
  selector it rejects. \<^verbatim>\<open>querySelector\<close> rejects the same selectors and returns the
  first match.

  A character is a byte, read as the character of that code (Latin-1). Of the white
  space that \<^verbatim>\<open>trim\<close> strips, seven characters are bytes: tab, line feed, vertical tab,
  form feed, carriage return, space and the no-break space \<open>0xA0\<close>.
\<close>

record node =
  textContent :: string
  attributes :: "(string \<times> string) list"
  outerHTML :: string
  html_element :: bool

type_synonym document = "json \<Rightarrow> string + node list"

definition is_space :: "char \<Rightarrow> bool" where
  "is_space c \<longleftrightarrow>
     c \<in> set [CHR '' '', CHR 0x09, CHR 0x0A, CHR 0x0B, CHR 0x0C, CHR 0x0D, CHR 0xA0]"

definition trim :: "string \<Rightarrow> string" where
  "trim s = rev (dropWhile is_space (rev (dropWhile is_space s)))"

text \<open>\<^verbatim>\<open>e.getAttribute(name)\<close>: the name is converted to a string, and to ASCII lower
  case on an HTML element of an HTML document; a missing attribute is \<^verbatim>\<open>null\<close>.\<close>

definition getAttribute :: "node \<Rightarrow> json \<Rightarrow> json" where
  "getAttribute e name =
     (let qualifiedName = (if html_element e then map lower_char (js_String name)
                           else js_String name)
      in case map_of (attributes e) qualifiedName of None \<Rightarrow> JNull | Some v \<Rightarrow> JStr v)"

text \<open>The shape shared by the functions evaluated in the page for \<^verbatim>\<open>text\<close>,
  \<^verbatim>\<open>attr\<close> and \<^verbatim>\<open>html\<close>: every match mapped when \<^verbatim>\<open>all\<close> is set, else the
  first match, or \<^verbatim>\<open>null\<close> without one.\<close>

definition pick :: "(node \<Rightarrow> json) \<Rightarrow> bool \<Rightarrow> node list \<Rightarrow> json" where
  "pick f all els =
     (if all then JArr (map f els)
      else (case els of [] \<Rightarrow> JNull | el # rest \<Rightarrow> f el))"

text \<open>One iteration of the loop over the specs: the entry pushed, \<open>None\<close> when the
  type is none of the four (nothing is pushed), or the error thrown: by the page, or by
  \<^verbatim>\<open>s.type\<close> when the spec is \<^verbatim>\<open>null\<close> or \<^verbatim>\<open>undefined\<close>.\<close>

definition extract_one :: "document \<Rightarrow> json \<Rightarrow> string + json option" where
  "extract_one doc s =
     (if s = JNull then Inl ''Cannot read properties of null (reading 'type')''
      else if s = JUndef then Inl ''Cannot read properties of undefined (reading 'type')''
      else
      let type = field s ''type''; selector = field s ''selector'' in
      if type = JStr ''text'' then
        (case doc selector of
           Inl e \<Rightarrow> Inl e
         | Inr els \<Rightarrow> Inr (Some (JObj
             [(''type'', type), (''name'', field s ''name''), (''selector'', selector),
              (''value'', pick (\<lambda>e. JStr (trim (textContent e))) (truthy (field s ''all'')) els)])))
      else if type = JStr ''attr'' then
        (case doc selector of
           Inl e \<Rightarrow> Inl e
         | Inr els \<Rightarrow> Inr (Some (JObj
             [(''type'', type), (''key'', truthy_or (field s ''key'') (field s ''name'')),
              (''selector'', selector),
              (''value'', pick (\<lambda>e. getAttribute e (field s ''name''))
                            (truthy (field s ''all'')) els)])))
      else if type = JStr ''html'' then
        (case doc selector of
           Inl e \<Rightarrow> Inl e
         | Inr els \<Rightarrow> Inr (Some (JObj
             [(''type'', type), (''name'', field s ''name''), (''selector'', selector),
              (''value'', pick (\<lambda>e. JStr (outerHTML e)) (truthy (field s ''all'')) els)])))
      else if type = JStr ''exists'' then
        (case doc selector of
           Inl e \<Rightarrow> Inl e
         | Inr els \<Rightarrow> Inr (Some (JObj
             [(''type'', type), (''name'', field s ''name''), (''selector'', selector),
              (''value'', JBool (els \<noteq> []))])))
      else Inr None)"

fun extract_loop :: "document \<Rightarrow> json list \<Rightarrow> json list \<Rightarrow> string + json list" where
  "extract_loop doc [] results = Inr results"
| "extract_loop doc (s # specs) results =
     (case extract_one doc s of
        Inl e \<Rightarrow> Inl e
      | Inr None \<Rightarrow> extract_loop doc specs results
      | Inr (Some r) \<Rightarrow> extract_loop doc specs (results @ [r]))"

definition performExtracts :: "document \<Rightarrow> json list \<Rightarrow> string + json list" where
  "performExtracts doc specs = extract_loop doc specs []"

text \<open>
  The result the specification asks for, in its own words. The four kinds of spec; the
  elements a selector matches and whether the page accepts it; what is read from one
  matched element (its trimmed text, the attribute, its outer HTML); the value of an
  entry (a boolean for existence, else every match when the all-flag is set, else the
  first match, or \<^verbatim>\<open>null\<close> without a match); and the entry, which carries type, name
  (key for an attribute), selector and value.
\<close>

definition four_kinds :: "json list" where
  "four_kinds = [JStr ''text'', JStr ''attr'', JStr ''html'', JStr ''exists'']"

definition accepted :: "document \<Rightarrow> json \<Rightarrow> bool" where
  "accepted doc s = (case doc (field s ''selector'') of Inl e \<Rightarrow> False | Inr els \<Rightarrow> True)"

definition matches :: "document \<Rightarrow> json \<Rightarrow> node list" where
  "matches doc s = (case doc (field s ''selector'') of Inl e \<Rightarrow> [] | Inr els \<Rightarrow> els)"

definition spec_reading :: "json \<Rightarrow> node \<Rightarrow> json" where
  "spec_reading s e =
     (if field s ''type'' = JStr ''text'' then JStr (trim (textContent e))
      else if field s ''type'' = JStr ''attr'' then getAttribute e (field s ''name'')
      else JStr (outerHTML e))"

definition spec_value :: "json \<Rightarrow> node list \<Rightarrow> json" where
  "spec_value s els =
     (if field s ''type'' = JStr ''exists'' then JBool (els \<noteq> [])
      else if truthy (field s ''all'') then JArr (map (spec_reading s) els)
      else if els = [] then JNull
      else spec_reading s (hd els))"

definition spec_entry :: "json \<Rightarrow> node list \<Rightarrow> json" where
  "spec_entry s els =
     JObj [(''type'', field s ''type''),
           (if field s ''type'' = JStr ''attr''
            then (''key'', if truthy (field s ''key'') then field s ''key'' else field s ''name'')
            else (''name'', field s ''name'')),
           (''selector'', field s ''selector''),
           (''value'', spec_value s els)]"

text \<open>
  An example page, injected as \<^verbatim>\<open><h1 id="t" class="a b">&nbsp;Hi </h1>\<close>: only
  \<^verbatim>\<open>#t\<close> matches, and the page rejects the selector \<^verbatim>\<open>##\<close>. Four specs, and one
  with the rejected selector.
\<close>

definition demo_doc :: document where
  "demo_doc sel =
     (if sel = JStr ''#t'' then
        Inr [\<lparr>textContent = CHR 0xA0 # ''Hi '',
              attributes = [(''id'', ''t''), (''class'', ''a b'')],
              outerHTML = ''<h1 id=\"t\" class=\"a b\">&nbsp;Hi </h1>'',
              html_element = True\<rparr>]
      else if sel = JStr ''##'' then
        Inl ''SyntaxError: Failed to execute 'querySelectorAll' on 'Document': '##' is not a valid selector.''
      else Inr [])"

definition demo_specs :: "json list" where
  "demo_specs =
     [JObj [(''type'', JStr ''text''), (''selector'', JStr ''#t'')],
      JObj [(''type'', JStr ''html''), (''selector'', JStr ''#none''), (''name'', JStr ''h'')],
      JObj [(''type'', JStr ''exists''), (''selector'', JStr ''#none'')],
      JObj [(''type'', JStr ''attr''), (''selector'', JStr ''#t''), (''name'', JStr ''ID''),
            (''all'', JBool True)]]"

section \<open>Paths (Node's POSIX path module)\<close>

text \<open>
  The code computes every location with \<^verbatim>\<open>path.join\<close>, \<^verbatim>\<open>path.resolve\<close>,
  \<^verbatim>\<open>path.dirname\<close> and \<^verbatim>\<open>path.basename\<close>. They are functions on strings:
  a path is cut at \<^verbatim>\<open>/\<close>, empty and \<^verbatim>\<open>.\<close> segments are dropped, and a \<^verbatim>\<open>..\<close>
  segment removes the segment before it (above the root it is dropped, above a relative
  start it is kept).
\<close>

fun split_on :: "char \<Rightarrow> string \<Rightarrow> string list" where
  "split_on c [] = [[]]"
| "split_on c (x # xs) =
     (if x = c then [] # split_on c xs
      else (case split_on c xs of
              [] \<Rightarrow> [[x]]
            | w # ws \<Rightarrow> (x # w) # ws))"

text \<open>\<^verbatim>\<open>normalizeString\<close>: the stack of segments kept so far is \<open>res\<close>.\<close>

fun normalize_segments :: "bool \<Rightarrow> string list \<Rightarrow> string list \<Rightarrow> string list" where
  "normalize_segments allowAboveRoot res [] = res"
| "normalize_segments allowAboveRoot res (seg # segs) =
     (if seg = [] \<or> seg = ''.'' then normalize_segments allowAboveRoot res segs
      else if seg = ''..'' then
        (if res \<noteq> [] \<and> last res \<noteq> ''..''
           then normalize_segments allowAboveRoot (butlast res) segs
         else if allowAboveRoot
           then normalize_segments allowAboveRoot (res @ [''..'']) segs
         else normalize_segments allowAboveRoot res segs)
      else normalize_segments allowAboveRoot (res @ [seg]) segs)"

definition normalizeString :: "string \<Rightarrow> bool \<Rightarrow> string" where
  "normalizeString p allowAboveRoot =
     join_with ''/'' (normalize_segments allowAboveRoot [] (split_on CHR ''/'' p))"

definition isAbsolute :: "string \<Rightarrow> bool" where
  "isAbsolute p = (case p of [] \<Rightarrow> False | c # cs \<Rightarrow> c = CHR ''/'')"

definition path_normalize :: "string \<Rightarrow> string" where
  "path_normalize p =
     (if p = [] then ''.''
      else
        let trailingSeparator = (last p = CHR ''/'');
            q = normalizeString p (\<not> isAbsolute p)
        in if q = [] then
             (if isAbsolute p then ''/'' else if trailingSeparator then ''./'' else ''.'')
           else
             (let q' = (if trailingSeparator then q @ ''/'' else q)
              in if isAbsolute p then CHR ''/'' # q' else q'))"

definition path_join :: "string list \<Rightarrow> string" where
  "path_join args =
     (case filter (\<lambda>a. a \<noteq> []) args of
        [] \<Rightarrow> ''.''
      | a # as \<Rightarrow> path_normalize (join_with ''/'' (a # as)))"

text \<open>\<^verbatim>\<open>path.resolve\<close> reads its arguments from the right until the path is absolute,
  and falls back on the working directory \<open>cwd\<close>, itself absolute.\<close>

fun resolve_loop :: "string list \<Rightarrow> string \<Rightarrow> string" where
  "resolve_loop [] resolvedPath = resolvedPath"
| "resolve_loop (p # ps) resolvedPath =
     (if p = [] then resolve_loop ps resolvedPath
      else if isAbsolute p then p @ ''/'' @ resolvedPath
      else resolve_loop ps (p @ ''/'' @ resolvedPath))"

definition path_resolve :: "string \<Rightarrow> string list \<Rightarrow> string" where
  "path_resolve cwd args =
     (let resolvedPath = resolve_loop (rev args @ [cwd]) [];
          resolvedAbsolute = isAbsolute resolvedPath;
          q = normalizeString resolvedPath (\<not> resolvedAbsolute)
      in if resolvedAbsolute then CHR ''/'' # q
         else if q \<noteq> [] then q else ''.'')"

definition path_dirname :: "string \<Rightarrow> string" where
  "path_dirname p =
     (case p of
        [] \<Rightarrow> ''.''
      | c # body \<Rightarrow>
          (case dropWhile (\<lambda>x. x \<noteq> CHR ''/'')
                  (dropWhile (\<lambda>x. x = CHR ''/'') (rev body)) of
             [] \<Rightarrow> (if c = CHR ''/'' then ''/'' else ''.'')
           | slash # front \<Rightarrow>
               (if c = CHR ''/'' \<and> front = [] then ''//'' else c # rev front)))"

definition path_basename :: "string \<Rightarrow> string" where
  "path_basename p =
     rev (takeWhile (\<lambda>x. x \<noteq> CHR ''/'') (dropWhile (\<lambda>x. x = CHR ''/'') (rev p)))"

definition startsWith :: "string \<Rightarrow> string \<Rightarrow> bool" where
  "startsWith s p = starts_with p s"

text \<open>\<^verbatim>\<open>safeJoin\<close> of the file utilities; \<open>cwd\<close> is the working directory of the
  process.\<close>

definition safeJoin :: "string \<Rightarrow> string \<Rightarrow> string \<Rightarrow> string + string" where
  "safeJoin cwd baseDir target =
     (let resolved = path_resolve cwd [baseDir, target];
          base = path_resolve cwd [baseDir]
      in if \<not> startsWith resolved (base @ ''/'') \<and> resolved \<noteq> base
         then Inl (''Unsafe path resolution: '' @ resolved)
         else Inr resolved)"

section \<open>Effects: the page, the file system, and errors\<close>

text \<open>
  A run of the worker is the list of its effects in program order. An effect is a call
  on the rendering engine (the browser, a page, or one of the two page subroutines
  \<^verbatim>\<open>waitForCanvasPaint\<close> and \<^verbatim>\<open>clickMuteHeuristic\<close>, which are modelled in their own
  sections and count here as one interaction that returns or throws), a timer, or a
  file-system operation. \<^verbatim>\<open>page.screenshot\<close> and \<^verbatim>\<open>el.screenshot\<close> are given a
  \<^verbatim>\<open>path\<close> option: the engine writes the image to that path itself.
\<close>

datatype call =
    NewPage "nat option"
  | SetUserAgent json
  | SetExtraHTTPHeaders json
  | SetViewport json
  | SetDefaultNavigationTimeout json
  | SetDefaultTimeout json
  | Goto json json json
  | SetContent json json json
  | Content
  | Screenshot string bool
  | ClosePage
  | WaitForSelector json json
  | Click json
  | Hover json
  | TypeText json json json
  | MouseClick json json
  | WaitForFunction json json
  | WaitForCanvasPaint json json
  | ClickMuteHeuristic
  | ElementScreenshot string
  | KeyboardPress json json

datatype outcome = Throw string | Return json

text \<open>What is written to a file: a string as it is, or the \<^verbatim>\<open>JSON.stringify\<close> of a
  value.\<close>

datatype data = Text json | Stringified json

datatype effect =
    Eng call
  | SetTimeout json
  | Mkdir string
  | WriteFile string data
  | Rename string string

text \<open>
  The environment of a run answers what the code cannot decide: the outcome of each
  engine call, whether a file-system call throws (\<open>Some\<close> with the message), the
  identifier \<^verbatim>\<open>randomUUID()\<close> returns and the reading of the clock (each by the
  number of effects before it), the final state of the page for the extraction, the
  console and network events the page emits while the job listens, and the number a
  string converts to (\<open>None\<close> for \<^verbatim>\<open>NaN\<close>). The list of effects of a run holds every
  call the run makes, also the one that throws.
\<close>

record env =
  engine :: "nat \<Rightarrow> call \<Rightarrow> outcome"
  fs_error :: "nat \<Rightarrow> effect \<Rightarrow> string option"
  randomUUID :: "nat \<Rightarrow> string"
  now :: "nat \<Rightarrow> int"
  final_doc :: document
  console_emitted :: "json list"
  network_emitted :: "json list"
  string_number :: "string \<Rightarrow> int option"

text \<open>
  An asynchronous function is a step: from the number of effects before it, it gives its
  own effects and either the message of the error it throws (\<open>Inl\<close>) or its value.
\<close>

type_synonym 'a step = "nat \<Rightarrow> effect list \<times> (string + 'a)"

definition ok :: "'a \<Rightarrow> 'a step" where
  "ok v n = ([], Inr v)"

definition throw :: "string \<Rightarrow> 'a step" where
  "throw m n = ([], Inl m)"

definition and_then :: "'a step \<Rightarrow> ('a \<Rightarrow> 'b step) \<Rightarrow> 'b step" where
  "and_then m f n =
     (case m n of
        (es, Inl e) \<Rightarrow> (es, Inl e)
      | (es, Inr v) \<Rightarrow> (case f v (n + length es) of (es', r) \<Rightarrow> (es @ es', r)))"

fun seq :: "unit step list \<Rightarrow> unit step" where
  "seq [] = ok ()"
| "seq (m # ms) = and_then m (\<lambda>u. seq ms)"

definition if_then :: "bool \<Rightarrow> unit step \<Rightarrow> unit step" where
  "if_then b m = (if b then m else ok ())"

definition eng :: "env \<Rightarrow> call \<Rightarrow> json step" where
  "eng E c n = ([Eng c], case engine E n c of Throw m \<Rightarrow> Inl m | Return v \<Rightarrow> Inr v)"

definition eng_do :: "env \<Rightarrow> call \<Rightarrow> unit step" where
  "eng_do E c = and_then (eng E c) (\<lambda>v. ok ())"

definition sleep :: "json \<Rightarrow> unit step" where
  "sleep ms n = ([SetTimeout ms], Inr ())"

definition fs_call :: "env \<Rightarrow> effect \<Rightarrow> unit step" where
  "fs_call E e n = ([e], case fs_error E n e of Some m \<Rightarrow> Inl m | None \<Rightarrow> Inr ())"

text \<open>\<^verbatim>\<open>try { ... } catch {}\<close>: the error is dropped.\<close>

definition attempt :: "unit step \<Rightarrow> unit step" where
  "attempt m n = (case m n of (es, r) \<Rightarrow> (es, Inr ()))"

subsection \<open>File utilities\<close>

definition ensureDir :: "env \<Rightarrow> string \<Rightarrow> unit step" where
  "ensureDir E dir = fs_call E (Mkdir dir)"

definition writeFileAtomic :: "env \<Rightarrow> string \<Rightarrow> data \<Rightarrow> unit step" where
  "writeFileAtomic E filePath d =
     (let dir = path_dirname filePath in
      and_then (ensureDir E dir) (\<lambda>u n.
        let base = path_basename filePath;
            tmp = path_join [dir, ''.'' @ base @ ''.tmp-'' @ randomUUID E n]
        in seq [fs_call E (WriteFile tmp d), fs_call E (Rename tmp filePath)] n))"

definition writeJSONAtomic :: "env \<Rightarrow> string \<Rightarrow> json \<Rightarrow> unit step" where
  "writeJSONAtomic E filePath obj = writeFileAtomic E filePath (Stringified obj)"

section \<open>Actions (runActions)\<close>

text \<open>\<^verbatim>\<open>String(i + 1).padStart(2, '0')\<close>.\<close>

definition padStart2 :: "string \<Rightarrow> string" where
  "padStart2 s = (if length s < 2 then replicate (2 - length s) CHR ''0'' @ s else s)"

definition step_number :: "nat \<Rightarrow> string" where
  "step_number i = padStart2 (show_nat (i + 1))"

text \<open>
  The body of the \<^verbatim>\<open>try\<close> for the action \<open>a\<close> at index \<open>i\<close>, before the optional
  step snapshot: the chain of \<^verbatim>\<open>if\<close> and \<^verbatim>\<open>else if\<close>, in the order of the source,
  with no final \<^verbatim>\<open>else\<close>. \<^verbatim>\<open>path.join\<close> throws on an argument that is not a
  string.
\<close>

definition dispatch :: "env \<Rightarrow> nat \<Rightarrow> json \<Rightarrow> string \<Rightarrow> unit step" where
  "dispatch E i a outDir =
     (let type = field a ''type'';
          selector = field a ''selector'';
          timeout = nullish_or (field a ''timeoutMs'') (JNum 30000)
      in
      if type = JStr ''waitForSelector'' \<and> truthy selector then
        eng_do E (WaitForSelector selector timeout)
      else if type = JStr ''click'' \<and> truthy selector then
        seq [eng_do E (WaitForSelector selector timeout), eng_do E (Click selector)]
      else if type = JStr ''hover'' \<and> truthy selector then
        seq [eng_do E (WaitForSelector selector timeout), eng_do E (Hover selector)]
      else if type = JStr ''type'' \<and> truthy selector \<and> is_string (field a ''text'') then
        seq [eng_do E (WaitForSelector selector timeout),
             eng_do E (TypeText selector (field a ''text'')
                         (nullish_or (field a ''delay'') (JNum 0)))]
      else if type = JStr ''clickAt'' \<and> is_number (field a ''x'') \<and> is_number (field a ''y'') then
        eng_do E (MouseClick (field a ''x'') (field a ''y''))
      else if type = JStr ''waitForTime'' \<and> is_number (field a ''ms'') then
        sleep (field a ''ms'')
      else if type = JStr ''waitForFunction'' \<and> truthy (field a ''fn'') then
        eng_do E (WaitForFunction (field a ''fn'') timeout)
      else if type = JStr ''waitForCanvasPaint'' then
        eng_do E (WaitForCanvasPaint (nullish_or (field a ''timeoutMs'') (JNum 60000))
                    (nullish_or (field a ''intervalMs'') (JNum 500)))
      else if type = JStr ''muteHeuristic'' then
        eng_do E ClickMuteHeuristic
      else if type = JStr ''screenshotElement'' \<and> truthy selector then
        and_then (eng E (WaitForSelector selector timeout)) (\<lambda>el.
          if_then (truthy el)
            (case truthy_or (field a ''file'')
                    (JStr (''step-'' @ step_number i @ ''-element.png'')) of
               JStr file \<Rightarrow> eng_do E (ElementScreenshot (path_join [outDir, file]))
             | other \<Rightarrow> throw ''The \"path\" argument must be of type string''))
      else if type = JStr ''press'' \<and> truthy (field a ''key'') then
        eng_do E (KeyboardPress (field a ''key'') (nullish_or (field a ''delay'') (JNum 0)))
      else ok ())"

definition step_snapshot :: "env \<Rightarrow> nat \<Rightarrow> string \<Rightarrow> unit step" where
  "step_snapshot E i outDir =
     eng_do E (Screenshot (path_join [outDir, ''step-'' @ step_number i @ ''.png'']) True)"

text \<open>The loop from index \<open>i\<close> on; an error of an iteration is rethrown and ends it.\<close>

fun actions_from :: "env \<Rightarrow> nat \<Rightarrow> json list \<Rightarrow> string \<Rightarrow> bool \<Rightarrow> unit step" where
  "actions_from E i [] outDir snapAfterEach = ok ()"
| "actions_from E i (a # rest) outDir snapAfterEach =
     seq [dispatch E i a outDir,
          if_then snapAfterEach (step_snapshot E i outDir),
          actions_from E (i + 1) rest outDir snapAfterEach]"

definition runActions :: "env \<Rightarrow> json list \<Rightarrow> string \<Rightarrow> bool \<Rightarrow> unit step" where
  "runActions E actions outDir snapAfterEach = actions_from E 0 actions outDir snapAfterEach"

text \<open>
  The action kinds the executor recognises, with the fields each needs, as the type
  \<^verbatim>\<open>PageAction\<close> and the request schema list them. An action is unusable when its type
  is not one of them or when a field its kind needs is missing or of the wrong sort.
\<close>

definition needs_selector :: "string list" where
  "needs_selector = [''waitForSelector'', ''click'', ''hover'', ''type'', ''screenshotElement'']"

definition recognized :: "string list" where
  "recognized = needs_selector @
     [''clickAt'', ''waitForTime'', ''waitForFunction'', ''waitForCanvasPaint'',
      ''muteHeuristic'', ''press'']"

definition unusable :: "json \<Rightarrow> bool" where
  "unusable a =
     (case field a ''type'' of
        JStr t \<Rightarrow>
          t \<notin> set recognized
          \<or> (t \<in> set needs_selector \<and> \<not> truthy (field a ''selector''))
          \<or> (t = ''type'' \<and> \<not> is_string (field a ''text''))
          \<or> (t = ''clickAt'' \<and> \<not> (is_number (field a ''x'') \<and> is_number (field a ''y'')))
          \<or> (t = ''waitForTime'' \<and> \<not> is_number (field a ''ms''))
          \<or> (t = ''waitForFunction'' \<and> \<not> truthy (field a ''fn''))
          \<or> (t = ''press'' \<and> \<not> truthy (field a ''key''))
      | other \<Rightarrow> True)"

section \<open>Worker (processRequest)\<close>

text \<open>The request after normalisation (\<^verbatim>\<open>RenderRequest\<close>). Fields that the watcher
  copies from the raw JSON are JavaScript values.\<close>

record request =
  req_id :: string
  req_op :: json
  req_url :: json
  req_html :: json
  req_viewport :: json
  req_fullPage :: bool
  req_waitUntil :: json
  req_timeoutMs :: json
  req_userAgent :: json
  req_extraHeaders :: json
  req_screenshot :: bool
  req_htmlOutput :: bool
  req_postWaitMs :: json
  req_actions :: json
  req_sessionId :: json
  req_extract :: json
  req_captureConsole :: bool
  req_captureNetwork :: bool
  req_screenshotOnEachAction :: bool

text \<open>\<^verbatim>\<open>Object.keys(v).length > 0\<close> for a truthy value.\<close>

fun has_keys :: "json \<Rightarrow> bool" where
  "has_keys (JObj kvs) = (kvs \<noteq> [])"
| "has_keys (JArr xs) = (xs \<noteq> [])"
| "has_keys (JStr s) = (s \<noteq> [])"
| "has_keys v = False"

text \<open>\<^verbatim>\<open>Array.isArray(v) && v.length > 0\<close>, with the items.\<close>

fun nonempty_array :: "json \<Rightarrow> json list option" where
  "nonempty_array (JArr (x # xs)) = Some (x # xs)"
| "nonempty_array v = None"

text \<open>
  \<^verbatim>\<open>req.postWaitMs && req.postWaitMs > 0\<close> and the delay
  \<^verbatim>\<open>Math.min(req.postWaitMs, 5 * 60_000)\<close>. The comparison and \<^verbatim>\<open>Math.min\<close>
  convert a value that is not a number, so the string \<^verbatim>\<open>'50'\<close> sleeps 50 ms.
\<close>

definition post_wait :: "env \<Rightarrow> json \<Rightarrow> int option" where
  "post_wait E v =
     (if \<not> truthy v then None
      else case to_number (string_number E) v of
             None \<Rightarrow> None
           | Some n \<Rightarrow> if n > 0 then Some (min n (5 * 60000)) else None)"

definition default_viewport :: json where
  "default_viewport =
     JObj [(''width'', JNum 1280), (''height'', JNum 800), (''deviceScaleFactor'', JNum 1)]"

text \<open>The statements of the \<^verbatim>\<open>try\<close> block after the page exists.\<close>

definition on_page :: "env \<Rightarrow> request \<Rightarrow> string \<Rightarrow> unit step" where
  "on_page E req outDir =
     (let timeout = nullish_or (req_timeoutMs req) (JNum 30000);
          until = truthy_or (req_waitUntil req) (JStr ''networkidle2'')
      in seq
       [if_then (truthy (req_userAgent req)) (eng_do E (SetUserAgent (req_userAgent req))),
        if_then (truthy (req_extraHeaders req) \<and> has_keys (req_extraHeaders req))
          (eng_do E (SetExtraHTTPHeaders (req_extraHeaders req))),
        eng_do E (SetViewport (truthy_or (req_viewport req) default_viewport)),
        eng_do E (SetDefaultNavigationTimeout timeout),
        eng_do E (SetDefaultTimeout timeout),
        (if req_op req = JStr ''render_url'' then
           (if \<not> truthy (req_url req) then throw ''url is required for op=render_url''
            else eng_do E (Goto (req_url req) until timeout))
         else if req_op req = JStr ''render_html'' then
           (if \<not> truthy (req_html req) then throw ''html is required for op=render_html''
            else eng_do E (SetContent (req_html req) until timeout))
         else throw (''Unknown op: '' @ js_String (req_op req))),
        (case post_wait E (req_postWaitMs req) of
           None \<Rightarrow> ok ()
         | Some ms \<Rightarrow> sleep (JNum ms)),
        (case nonempty_array (req_actions req) of
           None \<Rightarrow> ok ()
         | Some as \<Rightarrow> runActions E as outDir (req_screenshotOnEachAction req)),
        if_then (req_htmlOutput req)
          (and_then (eng E Content) (\<lambda>content.
             writeFileAtomic E (path_join [outDir, ''page.html'']) (Text content))),
        if_then (req_screenshot req)
          (eng_do E (Screenshot (path_join [outDir, ''screenshot.png'']) (req_fullPage req))),
        (case nonempty_array (req_extract req) of
           None \<Rightarrow> ok ()
         | Some specs \<Rightarrow>
             (case performExtracts (final_doc E) specs of
                Inl e \<Rightarrow> throw e
              | Inr extracted \<Rightarrow>
                  writeFileAtomic E (path_join [outDir, ''extract.json''])
                    (Stringified (JArr extracted))))])"

text \<open>
  \<^verbatim>\<open>try\<close>, \<^verbatim>\<open>catch\<close> and \<^verbatim>\<open>finally\<close>: the effects, whether a page was created
  (then it is closed, and an error of the closing is dropped), and the error message
  caught, if any.
\<close>

definition try_page ::
    "env \<Rightarrow> request \<Rightarrow> string \<Rightarrow> nat option \<Rightarrow> nat \<Rightarrow> effect list \<times> bool \<times> string option" where
  "try_page E req outDir context n =
     (case engine E n (NewPage context) of
        Throw m \<Rightarrow> ([Eng (NewPage context)], False, Some m)
      | Return page \<Rightarrow>
          (case on_page E req outDir (n + 1) of
             (es, r) \<Rightarrow>
               (Eng (NewPage context) # es @ [Eng ClosePage], True,
                case r of Inl m \<Rightarrow> Some m | Inr u \<Rightarrow> None)))"

text \<open>The metadata object before the run and after it.\<close>

definition meta_started :: "request \<Rightarrow> int \<Rightarrow> (string \<times> json) list" where
  "meta_started req startedAt =
     [(''id'', JStr (req_id req)), (''op'', req_op req), (''startedAt'', JNum startedAt),
      (''url'', req_url req), (''viewport'', req_viewport req), (''fullPage'', JBool (req_fullPage req)),
      (''waitUntil'', req_waitUntil req), (''hadError'', JBool False)]"

definition meta_finished ::
    "request \<Rightarrow> int \<Rightarrow> int \<Rightarrow> string option \<Rightarrow> (string \<times> json) list" where
  "meta_finished req startedAt finishedAt errorMessage =
     (case errorMessage of
        Some (c # cs) \<Rightarrow>
          map (\<lambda>(k, v). if k = ''hadError'' then (k, JBool True) else (k, v))
              (meta_started req startedAt)
          @ [(''finishedAt'', JNum finishedAt), (''durationMs'', JNum (finishedAt - startedAt)),
             (''errorMessage'', JStr (c # cs))]
      | other \<Rightarrow>
          meta_started req startedAt
          @ [(''finishedAt'', JNum finishedAt), (''durationMs'', JNum (finishedAt - startedAt))])"

text \<open>The completion marker: \<^verbatim>\<open>if (errorMessage)\<close> is false for no message and for
  the empty message.\<close>

definition done_marker :: "string option \<Rightarrow> json" where
  "done_marker errorMessage =
     (case errorMessage of
        Some (c # cs) \<Rightarrow> JObj [(''status'', JStr ''error''), (''error'', JStr (c # cs))]
      | other \<Rightarrow> JObj [(''status'', JStr ''ok'')])"

text \<open>The statements after the \<^verbatim>\<open>finally\<close>: metadata, logs (best effort, in one
  \<^verbatim>\<open>try\<close>), marker.\<close>

definition finish ::
    "env \<Rightarrow> request \<Rightarrow> string \<Rightarrow> int \<Rightarrow> bool \<Rightarrow> string option \<Rightarrow> unit step" where
  "finish E req outDir startedAt listening errorMessage n =
     (let consoleEvents = (if listening \<and> req_captureConsole req then console_emitted E else []);
          networkEvents = (if listening \<and> req_captureNetwork req then network_emitted E else [])
      in seq
       [writeJSONAtomic E (path_join [outDir, ''meta.json''])
          (JObj (meta_finished req startedAt (now E n) errorMessage)),
        attempt (seq
          [if_then (consoleEvents \<noteq> [])
             (writeFileAtomic E (path_join [outDir, ''console.log.json''])
                (Stringified (JArr consoleEvents))),
           if_then (networkEvents \<noteq> [])
             (writeFileAtomic E (path_join [outDir, ''network.log.json''])
                (Stringified (JArr networkEvents)))]),
        writeJSONAtomic E (path_join [outDir, ''done.json'']) (done_marker errorMessage)] n)"

text \<open>The whole function: its effects, and the error it throws, if any. An error of the
  first two statements or of the statements after the \<^verbatim>\<open>finally\<close> leaves the
  function at once.\<close>

definition processRequest ::
    "env \<Rightarrow> request \<Rightarrow> string \<Rightarrow> nat option \<Rightarrow> effect list \<times> string option" where
  "processRequest E req responsesDir context =
     (let outDir = path_join [responsesDir, req_id req];
          startedAt = now E 1
      in case seq [ensureDir E outDir,
                   writeJSONAtomic E (path_join [outDir, ''meta.json''])
                     (JObj (meta_started req startedAt))] 0 of
           (prologue, Inl e) \<Rightarrow> (prologue, Some e)
         | (prologue, Inr u) \<Rightarrow>
             (case try_page E req outDir context (length prologue) of
                (during, listening, errorMessage) \<Rightarrow>
                  (case finish E req outDir startedAt listening errorMessage
                          (length prologue + length during) of
                     (epilogue, Inl e) \<Rightarrow> (prologue @ during @ epilogue, Some e)
                   | (epilogue, Inr u) \<Rightarrow>
                       (prologue @ during @ epilogue,
                        case errorMessage of Some (c # cs) \<Rightarrow> Some (c # cs) | other \<Rightarrow> None))))"

text \<open>
  Which path an effect makes appear with content, and whether it does so by renaming a
  file of the same directory into place.
\<close>

fun creates :: "effect \<Rightarrow> string option" where
  "creates (WriteFile p d) = Some p"
| "creates (Rename src dst) = Some dst"
| "creates (Eng (Screenshot p full)) = Some p"
| "creates (Eng (ElementScreenshot p)) = Some p"
| "creates e = None"

fun renames_into_place :: "effect \<Rightarrow> bool" where
  "renames_into_place (Rename src dst) = (path_dirname src = path_dirname dst)"
| "renames_into_place e = False"

text \<open>An environment in which every call returns, and a request for a page by
  address with the default outputs.\<close>

definition calm :: env where
  "calm = \<lparr>engine = (\<lambda>n c. Return (JStr ''<html></html>'')),
           fs_error = (\<lambda>n e. None),
           randomUUID = (\<lambda>n. ''u'' @ show_nat n),
           now = (\<lambda>n. 1000 + int n),
           final_doc = (\<lambda>sel. Inr []),
           console_emitted = [], network_emitted = [],
           string_number = (\<lambda>s. None)\<rparr>"

definition job1 :: request where
  "job1 = \<lparr>req_id = ''job1'', req_op = JStr ''render_url'', req_url = JStr ''http://localhost/'',
           req_html = JUndef,
           req_viewport = default_viewport, req_fullPage = True, req_waitUntil = JStr ''networkidle2'',
           req_timeoutMs = JNum 30000, req_userAgent = JUndef, req_extraHeaders = JUndef,
           req_screenshot = True, req_htmlOutput = True, req_postWaitMs = JUndef, req_actions = JUndef,
           req_sessionId = JUndef, req_extract = JUndef, req_captureConsole = False,
           req_captureNetwork = False, req_screenshotOnEachAction = False\<rparr>"

text \<open>The same request with one scripted step and step-tracing, and a raw request whose
  id climbs out of the responses directory \<^verbatim>\<open>/srv/ww/responses\<close>.\<close>

definition job2 :: request where
  "job2 = job1\<lparr>req_id := ''job2'', req_actions := JArr [JObj [(''type'', JStr ''muteHeuristic'')]],
               req_screenshotOnEachAction := True\<rparr>"

definition raw_climbing :: json where
  "raw_climbing = JObj [(''id'', JStr ''../../etc/x''), (''op'', JStr ''render_html''),
                        (''html'', JStr ''<p>x</p>'')]"

text \<open>An environment in which the navigation fails.\<close>

definition failing :: env where
  "failing = calm\<lparr>engine := (\<lambda>n c. case c of Goto u w t \<Rightarrow> Throw ''net::ERR_FAILED''
                                         | other \<Rightarrow> Return JNull)\<rparr>"



definition raw_zero_id :: json where
  "raw_zero_id = JObj [(''id'', JNum 0), (''op'', JStr ''render_html''),
                       (''html'', JStr ''<p>x</p>'')]"

text \<open>An environment in which the disk is full once the page is closed.\<close>

definition disk_full :: env where
  "disk_full = calm\<lparr>fs_error := (\<lambda>n e. case e of
       WriteFile p d \<Rightarrow> if n > 12 then Some ''ENOSPC: no space left on device'' else None
     | other \<Rightarrow> None)\<rparr>"

section \<open>Watcher (normalizeRequest, the add handler, the session registry)\<close>

text \<open>\<^verbatim>\<open>raw.x !== undefined ? !!raw.x : true\<close>.\<close>

definition flag_default_true :: "json \<Rightarrow> bool" where
  "flag_default_true v = (if v \<noteq> JUndef then truthy v else True)"

fun array_or_undefined :: "json \<Rightarrow> json" where
  "array_or_undefined (JArr xs) = JArr xs"
| "array_or_undefined v = JUndef"

text \<open>\<open>uuid\<close> is what \<^verbatim>\<open>uuidv4()\<close> returns. Reading a property of \<^verbatim>\<open>null\<close> throws.\<close>

definition normalizeRequest :: "string \<Rightarrow> json \<Rightarrow> string + request" where
  "normalizeRequest uuid raw =
     (if raw = JNull \<or> raw = JUndef then
        Inl ''Cannot read properties of null (reading 'id')''
      else
        let id = js_String (truthy_or (field raw ''id'') (JStr uuid));
            op = field raw ''op''
        in if op \<noteq> JStr ''render_url'' \<and> op \<noteq> JStr ''render_html'' then
             Inl ''op must be \"render_url\" or \"render_html\"''
           else if op = JStr ''render_url'' \<and> \<not> truthy (field raw ''url'') then
             Inl ''url is required for op=render_url''
           else if op = JStr ''render_html'' \<and> \<not> truthy (field raw ''html'') then
             Inl ''html is required for op=render_html''
           else Inr
             \<lparr>req_id = id, req_op = op, req_url = field raw ''url'',
              req_html = field raw ''html'',
              req_viewport = truthy_or (field raw ''viewport'') default_viewport,
              req_fullPage = flag_default_true (field raw ''fullPage''),
              req_waitUntil = truthy_or (field raw ''waitUntil'') (JStr ''networkidle2''),
              req_timeoutMs = nullish_or (field raw ''timeoutMs'') (JNum 30000),
              req_userAgent = field raw ''userAgent'',
              req_extraHeaders = field raw ''extraHeaders'',
              req_screenshot = flag_default_true (field raw ''screenshot''),
              req_htmlOutput = flag_default_true (field raw ''htmlOutput''),
              req_postWaitMs = field raw ''postWaitMs'',
              req_actions = array_or_undefined (field raw ''actions''),
              req_sessionId =
                (if truthy (field raw ''sessionId'')
                 then JStr (js_String (field raw ''sessionId'')) else JUndef),
              req_extract = array_or_undefined (field raw ''extract''),
              req_captureConsole = truthy (field raw ''captureConsole''),
              req_captureNetwork = truthy (field raw ''captureNetwork''),
              req_screenshotOnEachAction = truthy (field raw ''screenshotOnEachAction'')\<rparr>)"

subsection \<open>The handler of the watcher's add event\<close>

text \<open>
  A file of the inbox holds JSON text or text that does not parse; the directories are
  entries of the file system too. The handler runs in
  segments separated by its \<^verbatim>\<open>await\<close>s, and the segments of different handler runs
  interleave; each segment is one transition of the watcher's state. A handler run is
  identified by a number. Its states: started on a path; holding the parsed content;
  holding the normalised request after the rename was attempted; in the \<^verbatim>\<open>catch\<close>
  branch with an error message; finished.
\<close>

datatype inbox_file = Malformed | Valid json | Directory

datatype handler =
    Started string
  | Parsed string json
  | Renamed request string
  | Caught string string
  | Finished

text \<open>
  \<open>files\<close> is the file system below the requests directory, \<open>handlers\<close> the runs in
  flight, \<open>enqueued\<close> the tasks handed to the limiter (the request and its claimed
  path) that have not run yet, \<open>processed\<close> the ids for which \<^verbatim>\<open>processRequest\<close>
  has been called, in order, and \<open>rejected\<close> the output locations and messages of the
  error artifacts written by the \<^verbatim>\<open>catch\<close> branch.
\<close>

record watcher =
  files :: "string \<Rightarrow> inbox_file option"
  handlers :: "nat \<Rightarrow> handler option"
  enqueued :: "(request \<times> string) list"
  processed :: "string list"
  rejected :: "(string \<times> string) list"
  shuttingDown :: bool

definition REQUESTS_DIR :: string where
  "REQUESTS_DIR = ''/srv/ww/requests''"

definition PROCESSING_DIR :: string where
  "PROCESSING_DIR = path_join [REQUESTS_DIR, ''processing'']"

definition RESPONSES_DIR :: string where
  "RESPONSES_DIR = ''/srv/ww/responses''"

text \<open>\<^verbatim>\<open>fs.rename\<close>: moves the file over the target, or fails: when the source does
  not exist, when the directory of the target does not exist, and when the target is a
  directory. The handler drops the failure.\<close>

definition fs_rename :: "string \<Rightarrow> string \<Rightarrow> (string \<Rightarrow> inbox_file option) \<Rightarrow> (string \<Rightarrow> inbox_file option) option" where
  "fs_rename src dst fs =
     (case fs src of
        None \<Rightarrow> None
      | Some f \<Rightarrow>
          (case fs (path_dirname dst) of
             Some Directory \<Rightarrow>
               (case fs dst of
                  Some Directory \<Rightarrow> None
                | other \<Rightarrow> Some ((fs(src := None))(dst := Some f)))
           | other \<Rightarrow> None))"

text \<open>\<^verbatim>\<open>fs.unlink\<close>, whose failure the code drops: it removes a file and leaves a
  directory.\<close>

definition fs_unlink :: "string \<Rightarrow> (string \<Rightarrow> inbox_file option) \<Rightarrow> (string \<Rightarrow> inbox_file option)" where
  "fs_unlink p fs = (case fs p of Some Directory \<Rightarrow> fs | other \<Rightarrow> fs(p := None))"

text \<open>
  The error response of the \<^verbatim>\<open>catch\<close> branch, for a file that could not be read or
  a request that is not valid. \<open>raw\<close> is what the second \<^verbatim>\<open>readJSON\<close> gives (the
  empty object when it fails), \<open>msg\<close> the message of the error caught. The id is
  \<^verbatim>\<open>raw?.id || uuidv4()\<close>, and \<^verbatim>\<open>path.join\<close> throws on an id that is not a
  string. The two dates are read one after the other with no \<^verbatim>\<open>await\<close> in between,
  and are one reading of the clock here. Every error is dropped by the enclosing
  \<^verbatim>\<open>try { ... } catch {}\<close>.
\<close>

definition error_meta :: "json \<Rightarrow> json \<Rightarrow> int \<Rightarrow> string \<Rightarrow> (string \<times> json) list" where
  "error_meta jid raw at msg =
     [(''id'', jid), (''op'', field raw ''op''), (''startedAt'', JNum at),
      (''finishedAt'', JNum at), (''durationMs'', JNum 0), (''url'', field raw ''url''),
      (''viewport'', field raw ''viewport''), (''fullPage'', field raw ''fullPage''),
      (''waitUntil'', field raw ''waitUntil''), (''hadError'', JBool True),
      (''errorMessage'', JStr msg)]"

definition write_error_response :: "env \<Rightarrow> string \<Rightarrow> json \<Rightarrow> string \<Rightarrow> string \<Rightarrow> unit step" where
  "write_error_response E responsesDir raw uuid msg =
     attempt
       (case truthy_or (field raw ''id'') (JStr uuid) of
          JStr jid \<Rightarrow>
            (let outDir = path_join [responsesDir, jid] in
             and_then (ensureDir E outDir) (\<lambda>u k.
               seq [writeJSONAtomic E (path_join [outDir, ''meta.json''])
                      (JObj (error_meta (JStr jid) raw (now E k) msg)),
                    writeJSONAtomic E (path_join [outDir, ''done.json''])
                      (JObj [(''status'', JStr ''error''), (''error'', JStr msg)])] k))
        | other \<Rightarrow> throw ''The \"path\" argument must be of type string'')"

datatype segment =
    Add nat string
  | ReadJSON nat
  | Claim nat string
  | EnqueueTask nat
  | Recover nat string
  | RunTask

text \<open>
  \<open>Add h p\<close>: the watcher reports the path \<open>p\<close> and run \<open>h\<close> begins, unless the
  process is shutting down. \<open>ReadJSON h\<close>: \<^verbatim>\<open>readJSON\<close> resolves or throws.
  \<open>Claim h uuid\<close>: \<^verbatim>\<open>normalizeRequest\<close> and the awaited \<^verbatim>\<open>fs.rename\<close>, whose
  failure is caught and dropped. \<open>EnqueueTask h\<close>: the task is handed to the limiter.
  \<open>Recover h uuid\<close>: the \<^verbatim>\<open>catch\<close> branch, which reads the file again, writes the
  error artifacts under the id it finds (nothing when \<^verbatim>\<open>path.join\<close> throws on an id
  that is not a string) and unlinks the file. \<open>RunTask\<close>: the limiter starts the oldest
  task, which calls \<^verbatim>\<open>processRequest\<close> and then unlinks the claimed path.
\<close>

definition watcher_step :: "segment \<Rightarrow> watcher \<Rightarrow> watcher option" where
  "watcher_step seg w =
     (case seg of
        Add h p \<Rightarrow>
          (if handlers w h \<noteq> None then None
           else if shuttingDown w then Some w
           else Some (w\<lparr>handlers := (handlers w)(h := Some (Started p))\<rparr>))
      | ReadJSON h \<Rightarrow>
          (case handlers w h of
             Some (Started p) \<Rightarrow>
               (case files w p of
                  None \<Rightarrow> Some (w\<lparr>handlers := (handlers w)(h := Some
                      (Caught p ''ENOENT: no such file or directory''))\<rparr>)
                | Some Malformed \<Rightarrow> Some (w\<lparr>handlers := (handlers w)(h := Some
                      (Caught p ''Unexpected token in JSON''))\<rparr>)
                | Some Directory \<Rightarrow> Some (w\<lparr>handlers := (handlers w)(h := Some
                      (Caught p ''EISDIR: illegal operation on a directory, read''))\<rparr>)
                | Some (Valid raw) \<Rightarrow>
                    Some (w\<lparr>handlers := (handlers w)(h := Some (Parsed p raw))\<rparr>))
           | other \<Rightarrow> None)
      | Claim h uuid \<Rightarrow>
          (case handlers w h of
             Some (Parsed p raw) \<Rightarrow>
               (case normalizeRequest uuid raw of
                  Inl msg \<Rightarrow> Some (w\<lparr>handlers := (handlers w)(h := Some (Caught p msg))\<rparr>)
                | Inr req \<Rightarrow>
                    (let claimedPath = path_join [PROCESSING_DIR, req_id req @ ''.json'']
                     in Some (w\<lparr>files := (case fs_rename p claimedPath (files w) of
                                            None \<Rightarrow> files w
                                          | Some fs' \<Rightarrow> fs'),
                                 handlers := (handlers w)(h := Some (Renamed req claimedPath))\<rparr>)))
           | other \<Rightarrow> None)
      | EnqueueTask h \<Rightarrow>
          (case handlers w h of
             Some (Renamed req claimedPath) \<Rightarrow>
               Some (w\<lparr>enqueued := enqueued w @ [(req, claimedPath)],
                       handlers := (handlers w)(h := Some Finished)\<rparr>)
           | other \<Rightarrow> None)
      | Recover h uuid \<Rightarrow>
          (case handlers w h of
             Some (Caught p msg) \<Rightarrow>
               (let raw = (case files w p of Some (Valid v) \<Rightarrow> v | other \<Rightarrow> JObj []);
                    id = truthy_or (field raw ''id'') (JStr uuid)
                in Some (w\<lparr>rejected := (case id of
                                           JStr s \<Rightarrow> rejected w @ [(path_join [RESPONSES_DIR, s], msg)]
                                         | other \<Rightarrow> rejected w),
                            files := fs_unlink p (files w),
                            handlers := (handlers w)(h := Some Finished)\<rparr>))
           | other \<Rightarrow> None)
      | RunTask \<Rightarrow>
          (case enqueued w of
             [] \<Rightarrow> None
           | (req, claimedPath) # rest \<Rightarrow>
               Some (w\<lparr>enqueued := rest,
                       processed := processed w @ [req_id req],
                       files := fs_unlink claimedPath (files w)\<rparr>)))"

fun watcher_run :: "segment list \<Rightarrow> watcher \<Rightarrow> watcher option" where
  "watcher_run [] w = Some w"
| "watcher_run (seg # segs) w =
     (case watcher_step seg w of None \<Rightarrow> None | Some w' \<Rightarrow> watcher_run segs w')"

text \<open>The requests directory with its \<^verbatim>\<open>processing\<close> directory and one valid
  request file, delivered to two handler runs.\<close>

definition raw_j1 :: json where
  "raw_j1 = JObj [(''id'', JStr ''j1''), (''op'', JStr ''render_html''),
                  (''html'', JStr ''<p>x</p>'')]"

definition inbox :: watcher where
  "inbox = \<lparr>files = (\<lambda>p. if p = ''/srv/ww/requests/a.json'' then Some (Valid raw_j1)
                          else if p = ''/srv/ww/requests'' \<or> p = ''/srv/ww/requests/processing''
                          then Some Directory else None),
            handlers = (\<lambda>h. None), enqueued = [], processed = [], rejected = [],
            shuttingDown = False\<rparr>"

definition duplicate_delivery :: "segment list" where
  "duplicate_delivery =
     [Add 1 ''/srv/ww/requests/a.json'', Add 2 ''/srv/ww/requests/a.json'',
      ReadJSON 1, ReadJSON 2, Claim 1 ''u1'', Claim 2 ''u2'',
      EnqueueTask 1, EnqueueTask 2]"

text \<open>The same inbox with a request whose id climbs out of the \<^verbatim>\<open>processing\<close>
  directory: the claimed path is \<^verbatim>\<open>/srv/ww/etc/x.json\<close>, in a directory that
  does not exist.\<close>

definition inbox_climbing :: watcher where
  "inbox_climbing =
     inbox\<lparr>files := (files inbox)(''/srv/ww/requests/a.json'' := Some (Valid raw_climbing))\<rparr>"


text \<open>An inbox with two files of the same content, each delivered once.\<close>

definition inbox_twice :: watcher where
  "inbox_twice = inbox\<lparr>files := (\<lambda>p. if p = ''/srv/ww/requests/a.json'' \<or> p = ''/srv/ww/requests/b.json''
                                    then Some (Valid raw_j1) else files inbox p)\<rparr>"

definition identical_files :: "segment list" where
  "identical_files =
     [Add 1 ''/srv/ww/requests/a.json'', Add 2 ''/srv/ww/requests/b.json'',
      ReadJSON 1, ReadJSON 2, Claim 1 ''u1'', Claim 2 ''u2'',
      EnqueueTask 1, EnqueueTask 2, RunTask, RunTask]"

subsection \<open>The session registry\<close>

text \<open>
  The task looks the session id up in \<^verbatim>\<open>sessionContexts\<close>; without an entry it awaits
  \<^verbatim>\<open>browser.createIncognitoBrowserContext()\<close> and stores the result afterwards. The
  lookup with the start of the creation is one segment, the store after the await is
  another. The creation is taken to succeed, and contexts are numbered in the order of
  their creation. A task is waiting with
  its session id, creating a context, or holding the context it passes on to
  \<^verbatim>\<open>processRequest\<close> (\<open>None\<close> without session id).
\<close>

datatype task_state =
    Waiting json
  | Creating string nat
  | Holding "nat option"

record registry =
  sessionContexts :: "string \<Rightarrow> nat option"
  created :: "(string \<times> nat) list"
  tasks :: "nat \<Rightarrow> task_state option"

datatype registry_segment = Lookup nat | Publish nat

definition registry_step :: "registry_segment \<Rightarrow> registry \<Rightarrow> registry option" where
  "registry_step seg r =
     (case seg of
        Lookup t \<Rightarrow>
          (case tasks r t of
             Some (Waiting sid) \<Rightarrow>
               (case sid of
                  JStr (c # cs) \<Rightarrow>
                    (case sessionContexts r (c # cs) of
                       Some context \<Rightarrow>
                         Some (r\<lparr>tasks := (tasks r)(t := Some (Holding (Some context)))\<rparr>)
                     | None \<Rightarrow>
                         Some (r\<lparr>created := created r @ [(c # cs, length (created r))],
                                 tasks := (tasks r)(t := Some
                                    (Creating (c # cs) (length (created r))))\<rparr>))
                | other \<Rightarrow> Some (r\<lparr>tasks := (tasks r)(t := Some (Holding None))\<rparr>))
           | other \<Rightarrow> None)
      | Publish t \<Rightarrow>
          (case tasks r t of
             Some (Creating sid context) \<Rightarrow>
               Some (r\<lparr>sessionContexts := (sessionContexts r)(sid := Some context),
                       tasks := (tasks r)(t := Some (Holding (Some context)))\<rparr>)
           | other \<Rightarrow> None))"

fun registry_run :: "registry_segment list \<Rightarrow> registry \<Rightarrow> registry option" where
  "registry_run [] r = Some r"
| "registry_run (seg # segs) r =
     (case registry_step seg r of None \<Rightarrow> None | Some r' \<Rightarrow> registry_run segs r')"

text \<open>Two tasks of the same new session id, and a browser without contexts.\<close>

definition two_first_callers :: registry where
  "two_first_callers =
     \<lparr>sessionContexts = (\<lambda>sid. None), created = [],
      tasks = (\<lambda>t. if t = 1 \<or> t = 2 then Some (Waiting (JStr ''s'')) else None)\<rparr>"

text \<open>
  A task that runs both segments with no other task in between, as every task does
  under the default concurrency bound of one; and the registries in which no task is in
  the middle of a creation, every created context belongs to a different session id and
  the registry knows exactly the session ids for which a context was created.
\<close>

definition getOrCreate :: "nat \<Rightarrow> registry \<Rightarrow> registry option" where
  "getOrCreate t r =
     (case registry_step (Lookup t) r of
        None \<Rightarrow> None
      | Some r' \<Rightarrow>
          (case tasks r' t of
             Some (Creating sid context) \<Rightarrow> registry_step (Publish t) r'
           | other \<Rightarrow> Some r'))"

fun getOrCreate_all :: "nat list \<Rightarrow> registry \<Rightarrow> registry option" where
  "getOrCreate_all [] r = Some r"
| "getOrCreate_all (t # ts) r =
     (case getOrCreate t r of None \<Rightarrow> None | Some r' \<Rightarrow> getOrCreate_all ts r')"

definition settled :: "registry \<Rightarrow> bool" where
  "settled r \<longleftrightarrow>
     (\<forall>t sid context. tasks r t \<noteq> Some (Creating sid context)) \<and>
     distinct (map fst (created r)) \<and>
     (\<forall>sid. sessionContexts r sid \<noteq> None \<longleftrightarrow> sid \<in> fst ` set (created r))"

section \<open>Properties of the JavaScript values\<close>

text \<open>\<^verbatim>\<open>String\<close> prints a number up to \<open>2 ^ 53\<close> in full; beyond, it prints the
  shortest digits of the nearest double, in exponent notation from \<open>10 ^ 21\<close> on.\<close>

lemma js_String_numbers:
  "js_String (JNum 30000) = ''30000'' \<and>
   js_String (JNum (- 12)) = ''-12'' \<and>
   js_String (JNum 9007199254740993) = ''9007199254740992'' \<and>
   js_String (JNum 1000000000000000000000) = ''1e+21''"
  by code_simp

lemma js_String_shortest_digits:
  "js_String (JNum 18446744073709551616) = ''18446744073709552000''"
  by code_simp

lemma js_String_values:
  "js_String (JArr [JNum 1, JNull, JArr [JStr ''a'', JBool True]]) = ''1,,a,true'' \<and>
   js_String (JObj [(''a'', JNum 1)]) = ''[object Object]'' \<and>
   js_String JUndef = ''undefined''"
  by code_simp

lemma timer_delay_examples:
  "timer_delay (Some 500) = 500 \<and> timer_delay (Some 0) = 1 \<and> timer_delay None = 1 \<and>
   timer_delay (Some 2147483648) = 1"
  by code_simp

section \<open>Properties of the concurrency limiter\<close>

lemma limiter_inv_init: "limiter_inv (createLimiter n)"
  by (simp add: limiter_inv_def createLimiter_def)

lemma limiter_inv_step:
  assumes "limiter_inv s" and "limiter_step e s = Some s'"
  shows "limiter_inv s'"
proof (cases e)
  case (Enqueue fn)
  with assms show ?thesis
    by (auto simp: limiter_inv_def enqueue_def)
next
  case Tick
  with assms show ?thesis
    by (cases "queue s")
       (auto simp: limiter_inv_def runNext_def split: if_splits)
next
  case (Settle fn)
  with assms have mem: "fn \<in> set (running s)"
    by (auto split: if_splits)
  then have "length (remove1 fn (running s)) = length (running s) - 1"
    by (simp add: length_remove1)
  moreover from mem have "0 < length (running s)"
    by (cases "running s") auto
  ultimately show ?thesis
    using assms Settle by (auto simp: limiter_inv_def settle_def split: if_splits)
qed

lemma limiter_inv_run:
  "limiter_inv s \<Longrightarrow> limiter_run es s = Some s' \<Longrightarrow> limiter_inv s'"
proof (induction es arbitrary: s)
  case Nil
  then show ?case by simp
next
  case (Cons e es)
  then show ?case
    by (auto split: option.splits dest: limiter_inv_step)
qed

lemma limit_run: "limiter_run es s = Some s' \<Longrightarrow> limit s' = limit s"
proof (induction es arbitrary: s)
  case Nil
  then show ?case by simp
next
  case (Cons e es)
  obtain s1 where s1: "limiter_step e s = Some s1" and r: "limiter_run es s1 = Some s'"
    using Cons.prems by (auto split: option.splits)
  have "limit s1 = limit s"
    using s1 by (cases e) (auto simp: enqueue_def runNext_def settle_def
        split: if_splits list.splits)
  with Cons.IH [OF r] show ?case by simp
qed

text \<open>
  C5. After any sequence of submissions, callbacks and completions on a limiter
  created with bound \<open>n \<ge> 1\<close>: the number of started and unsettled tasks equals
  \<open>active\<close> and is at most \<open>n\<close>; the tasks started so far, in start order, followed
  by the tasks still waiting, are exactly the submissions in submission order (dispatch
  is first-in first-out); and whenever a task waits while \<open>active\<close> is below \<open>n\<close>, a
  \<^verbatim>\<open>runNext\<close> callback is scheduled, and that callback starts the oldest waiting task.
\<close>

theorem limiter_bound_and_fifo:
  assumes "1 \<le> n" and "limiter_run es (createLimiter n) = Some s"
  shows "length (running s) = active s \<and> active s \<le> n \<and>
         dispatched s @ queue s = submitted s \<and>
         (queue s \<noteq> [] \<and> active s < n \<longrightarrow>
            0 < immediates s \<and>
            (\<exists>s'. limiter_step Tick s = Some s' \<and>
                  dispatched s' = dispatched s @ [hd (queue s)] \<and>
                  queue s' = tl (queue s) \<and>
                  running s' = running s @ [hd (queue s)]))"
proof -
  have inv: "limiter_inv s"
    using limiter_inv_run [OF limiter_inv_init assms(2)] .
  have lim: "limit s = n"
    using limit_run [OF assms(2)] by (simp add: createLimiter_def)
  have a: "length (running s) = active s \<and> active s \<le> n \<and>
           dispatched s @ queue s = submitted s"
    using inv lim by (simp add: limiter_inv_def)
  have b: "0 < immediates s" if "queue s \<noteq> []" "active s < n"
  proof -
    have "0 < length (queue s)" and "0 < limit s - active s"
      using that lim by simp_all
    then have "0 < min (length (queue s)) (limit s - active s)"
      by simp
    moreover have "min (length (queue s)) (limit s - active s) \<le> immediates s"
      using inv by (simp add: limiter_inv_def)
    ultimately show ?thesis by linarith
  qed
  have c: "\<exists>s'. limiter_step Tick s = Some s' \<and>
                dispatched s' = dispatched s @ [hd (queue s)] \<and>
                queue s' = tl (queue s) \<and>
                running s' = running s @ [hd (queue s)]"
    if "queue s \<noteq> []" "active s < n"
    using that b lim by (cases "queue s") (auto simp: runNext_def)
  from a b c show ?thesis by blast
qed

theorem limiter_bound_and_fifo_witness:
  "limiter_run [Enqueue 7, Enqueue 8, Enqueue 9, Tick, Tick, Tick, Settle 7]
       (createLimiter 2)
     = Some \<lparr>limit = 2, active = 1, queue = [9], immediates = 1,
             running = [8], dispatched = [7, 8], submitted = [7, 8, 9]\<rparr>
   \<and> (\<exists>s'. limiter_step Tick \<lparr>limit = 2, active = 1, queue = [9], immediates = 1,
             running = [8], dispatched = [7, 8], submitted = [7, 8, 9]\<rparr> = Some s'
           \<and> dispatched s' = [7, 8, 9] \<and> queue s' = [] \<and> running s' = [8, 9])"
proof -
  have r: "limiter_run [Enqueue 7, Enqueue 8, Enqueue 9, Tick, Tick, Tick, Settle 7]
             (createLimiter 2)
           = Some \<lparr>limit = 2, active = 1, queue = [9], immediates = 1,
                   running = [8], dispatched = [7, 8], submitted = [7, 8, 9]\<rparr>"
    by (simp add: createLimiter_def enqueue_def runNext_def settle_def)
  have n: "(1::nat) \<le> 2" by simp
  show ?thesis
    using limiter_bound_and_fifo [OF n r] r by simp
qed

section \<open>Properties of the heuristic mute\<close>

lemmas mute_defs = clickMuteHeuristic_def mute_evaluate_def page_click_marked_def candidates_def
  score_def toLowerCase_def lower_char_def regex_test_def btn_def marked_link_def
  enumerate_eq_zip

text \<open>The scores of the three texts named by the specification, and the two examples on
  pages without marker.\<close>

lemma score_examples:
  "score (btn ''Sound'') = 2 \<and> score (btn ''No Sound'') = 5 \<and> score (btn ''Accept'') = - 1"
  by (simp add: mute_defs)

lemma mute_clicks_no_sound:
  "clickMuteHeuristic [btn ''Sound'', btn ''No Sound''] =
     Inr ([btn ''Sound'', (btn ''No Sound'')\<lparr>ww_click := True\<rparr>], Some 1)"
  by (simp add: mute_defs)

lemma mute_ignores_accept:
  "clickMuteHeuristic [btn ''Accept''] = Inr ([btn ''Accept''], None)"
  by (simp add: mute_defs)

lemma best_loop_Cons:
  "best_loop (c # cs) (b, bs) =
     (if score (snd c) > bs then best_loop cs (Some (fst c), score (snd c))
      else best_loop cs (b, bs))"
  by (cases c) (simp add: Let_def)

lemma best_loop_mono:
  "best_loop cs (b, bs) = (b', bs') \<Longrightarrow> bs \<le> bs'"
proof (induction cs arbitrary: b bs)
  case Nil
  then show ?case by simp
next
  case (Cons c cs)
  show ?case
  proof (cases "score (snd c) > bs")
    case True
    with Cons.prems have "best_loop cs (Some (fst c), score (snd c)) = (b', bs')"
      by (simp only: best_loop_Cons if_True)
    from Cons.IH [OF this] True show ?thesis by linarith
  next
    case False
    with Cons.prems have "best_loop cs (b, bs) = (b', bs')"
      by (simp only: best_loop_Cons if_False)
    from Cons.IH [OF this] show ?thesis .
  qed
qed

lemma best_loop_max:
  "best_loop cs (b, bs) = (b', bs') \<Longrightarrow> c \<in> set cs \<Longrightarrow> score (snd c) \<le> bs'"
proof (induction cs arbitrary: b bs)
  case Nil
  then show ?case by simp
next
  case (Cons d cs)
  show ?case
  proof (cases "score (snd d) > bs")
    case True
    with Cons.prems have r: "best_loop cs (Some (fst d), score (snd d)) = (b', bs')"
      by (simp only: best_loop_Cons if_True)
    show ?thesis
    proof (cases "c = d")
      case True
      with best_loop_mono [OF r] show ?thesis by simp
    next
      case False
      with Cons.prems have "c \<in> set cs" by simp
      from Cons.IH [OF r this] show ?thesis .
    qed
  next
    case False
    with Cons.prems have r: "best_loop cs (b, bs) = (b', bs')"
      by (simp only: best_loop_Cons if_False)
    show ?thesis
    proof (cases "c = d")
      case True
      with best_loop_mono [OF r] False show ?thesis by simp
    next
      case False
      with Cons.prems have "c \<in> set cs" by simp
      from Cons.IH [OF r this] show ?thesis .
    qed
  qed
qed

lemma best_loop_first:
  "best_loop cs (b, bs) = (b', bs') \<Longrightarrow>
     (b' = b \<and> bs' = bs) \<or>
     (\<exists>pre c post. cs = pre @ c # post \<and> b' = Some (fst c) \<and> score (snd c) = bs' \<and>
        bs < bs' \<and> (\<forall>d \<in> set pre. score (snd d) < bs'))"
proof (induction cs arbitrary: b bs)
  case Nil
  then show ?case by simp
next
  case (Cons d cs)
  show ?case
  proof (cases "score (snd d) > bs")
    case True
    with Cons.prems have r: "best_loop cs (Some (fst d), score (snd d)) = (b', bs')"
      by (simp only: best_loop_Cons if_True)
    from Cons.IH [OF r] show ?thesis
    proof
      assume "b' = Some (fst d) \<and> bs' = score (snd d)"
      with True have "d # cs = [] @ d # cs \<and> b' = Some (fst d) \<and> score (snd d) = bs' \<and>
          bs < bs' \<and> (\<forall>e \<in> set []. score (snd e) < bs')"
        by simp
      then show ?thesis by blast
    next
      assume "\<exists>pre c post. cs = pre @ c # post \<and> b' = Some (fst c) \<and> score (snd c) = bs' \<and>
        score (snd d) < bs' \<and> (\<forall>e \<in> set pre. score (snd e) < bs')"
      then obtain pre c post where p: "cs = pre @ c # post" "b' = Some (fst c)"
          "score (snd c) = bs'" "score (snd d) < bs'" "\<forall>e \<in> set pre. score (snd e) < bs'"
        by blast
      with True have "d # cs = (d # pre) @ c # post \<and> b' = Some (fst c) \<and>
          score (snd c) = bs' \<and> bs < bs' \<and> (\<forall>e \<in> set (d # pre). score (snd e) < bs')"
        by simp
      then show ?thesis by blast
    qed
  next
    case False
    with Cons.prems have r: "best_loop cs (b, bs) = (b', bs')"
      by (simp only: best_loop_Cons if_False)
    from Cons.IH [OF r] show ?thesis
    proof
      assume "b' = b \<and> bs' = bs"
      then show ?thesis by simp
    next
      assume "\<exists>pre c post. cs = pre @ c # post \<and> b' = Some (fst c) \<and> score (snd c) = bs' \<and>
        bs < bs' \<and> (\<forall>e \<in> set pre. score (snd e) < bs')"
      then obtain pre c post where p: "cs = pre @ c # post" "b' = Some (fst c)"
          "score (snd c) = bs'" "bs < bs'" "\<forall>e \<in> set pre. score (snd e) < bs'"
        by blast
      with False have "d # cs = (d # pre) @ c # post \<and> b' = Some (fst c) \<and>
          score (snd c) = bs' \<and> bs < bs' \<and> (\<forall>e \<in> set (d # pre). score (snd e) < bs')"
        by simp
      then show ?thesis by blast
    qed
  qed
qed

lemma no_marker_filter:
  assumes "\<forall>e \<in> set pg. \<not> ww_click e"
  shows "filter (\<lambda>(j, e). ww_click e) (enumerate n pg) = []"
  using assms by (auto simp: filter_empty_conv in_set_enumerate_eq)

lemma one_marker_filter:
  assumes "\<forall>e \<in> set pg. \<not> ww_click e" and "i < length pg" and "ww_click x"
  shows "filter (\<lambda>(j, e). ww_click e) (enumerate n (pg[i := x])) = [(n + i, x)]"
  using assms
proof (induction pg arbitrary: i n)
  case Nil
  then show ?case by simp
next
  case (Cons a pg)
  show ?case
  proof (cases i)
    case 0
    with Cons.prems show ?thesis
      by (simp add: no_marker_filter)
  next
    case (Suc k)
    with Cons.prems have "filter (\<lambda>(j, e). ww_click e) (enumerate (Suc n) (pg[k := x]))
        = [(Suc n + k, x)]"
      by (intro Cons.IH) simp_all
    with Suc Cons.prems show ?thesis by simp
  qed
qed

lemma filter_eq_appendD:
  "filter P xs = pre @ ys \<Longrightarrow> \<exists>us ws. xs = us @ ws \<and> filter P us = pre \<and> filter P ws = ys"
proof (induction pre arbitrary: xs)
  case Nil
  then have "xs = [] @ xs \<and> filter P [] = [] \<and> filter P xs = ys" by simp
  then show ?case by blast
next
  case (Cons a pre)
  then have "filter P xs = a # (pre @ ys)" by simp
  from filter_eq_ConsD [OF this] obtain us vs
    where xs: "xs = us @ a # vs" and no: "\<forall>u \<in> set us. \<not> P u" and a: "P a"
      and rest: "pre @ ys = filter P vs"
    by blast
  from Cons.IH [OF rest [symmetric]] obtain us' ws
    where vs: "vs = us' @ ws" and f1: "filter P us' = pre" and f2: "filter P ws = ys"
    by blast
  have "filter P us = []" using no by (simp add: filter_empty_conv)
  then have "xs = (us @ a # us') @ ws \<and> filter P (us @ a # us') = a # pre \<and> filter P ws = ys"
    using xs vs a f1 f2 by simp
  then show ?case by blast
qed

lemma candidates_position:
  assumes "candidates pg = pre @ c # post"
  shows "fst c < length pg \<and> snd c = pg ! fst c \<and> clickable (snd c) \<and>
         (\<forall>j < fst c. clickable (pg ! j) \<longrightarrow> (j, pg ! j) \<in> set pre)"
proof -
  from assms have "filter (\<lambda>(i, el). clickable el) (enumerate 0 pg) = pre @ c # post"
    by (simp add: candidates_def)
  from filter_eq_appendD [OF this] obtain us ws where e1: "enumerate 0 pg = us @ ws"
    and pre: "pre = filter (\<lambda>(i, el). clickable el) us"
    and w: "filter (\<lambda>(i, el). clickable el) ws = c # post"
    by blast
  from w obtain us' vs where e2: "ws = us' @ c # vs"
    and none: "\<forall>u \<in> set us'. \<not> (\<lambda>(i, el). clickable el) u"
    and cl: "(\<lambda>(i, el). clickable el) c"
    unfolding filter_eq_Cons_iff by blast
  define front where "front = us @ us'"
  define k where "k = length front"
  have e: "enumerate 0 pg = front @ c # vs"
    by (simp add: e1 e2 front_def)
  have len: "k < length pg"
    using arg_cong [OF e, of length] by (simp add: k_def)
  have "enumerate 0 pg ! k = c"
    unfolding e k_def by simp
  with len have c: "c = (k, pg ! k)"
    by (simp add: nth_enumerate_eq)
  have inpre: "(j, pg ! j) \<in> set pre" if j: "j < k" and cj: "clickable (pg ! j)" for j
  proof -
    have "front ! j = enumerate 0 pg ! j"
      using j unfolding e k_def by (simp add: nth_append)
    also have "\<dots> = (j, pg ! j)"
      using j len by (simp add: nth_enumerate_eq)
    finally have "(j, pg ! j) \<in> set front"
      using j unfolding k_def by (metis nth_mem)
    with none cj have "(j, pg ! j) \<in> set us" by (auto simp: front_def)
    with cj show ?thesis by (simp add: pre)
  qed
  from c len cl inpre show ?thesis by simp
qed

text \<open>
  On a page where no element carries the marker yet, the action clicks the first
  clickable element of the highest score when that score is at least 3, or throws the
  error of the click when that element is not rendered; it clicks nothing, and fails
  nothing, when every clickable element scores below 3.
\<close>

lemma clickMuteHeuristic_on_fresh_page:
  assumes "\<forall>el \<in> set pg. \<not> ww_click el"
  shows "(\<exists>i. clickMuteHeuristic pg =
                (if rendered (pg ! i)
                 then Inr (pg[i := (pg ! i)\<lparr>ww_click := True\<rparr>], Some i)
                 else Inl ''Node is either not clickable or not an Element'') \<and>
              i < length pg \<and> clickable (pg ! i) \<and> 3 \<le> score (pg ! i) \<and>
              (\<forall>j < length pg. clickable (pg ! j) \<longrightarrow> score (pg ! j) \<le> score (pg ! i)) \<and>
              (\<forall>j < i. clickable (pg ! j) \<longrightarrow> score (pg ! j) < score (pg ! i)))
         \<or> (clickMuteHeuristic pg = Inr (pg, None) \<and>
              (\<forall>j < length pg. clickable (pg ! j) \<longrightarrow> score (pg ! j) < 3))"
proof -
  obtain b bs where r: "best_loop (candidates pg) (None, 0) = (b, bs)"
    by (cases "best_loop (candidates pg) (None, 0)")
  have all: "score (pg ! j) \<le> bs" if "j < length pg" "clickable (pg ! j)" for j
  proof -
    from that have "(j, pg ! j) \<in> set (candidates pg)"
      by (simp add: candidates_def in_set_enumerate_eq)
    from best_loop_max [OF r this] show ?thesis by simp
  qed
  show ?thesis
  proof (cases "\<exists>i. b = Some i \<and> 3 \<le> bs")
    case False
    have nc: "clickMuteHeuristic pg = Inr (pg, None)"
    proof (cases b)
      case None
      then show ?thesis
        by (simp add: clickMuteHeuristic_def mute_evaluate_def r)
    next
      case (Some i)
      with False have "\<not> 3 \<le> bs" by simp
      with Some show ?thesis
        by (simp add: clickMuteHeuristic_def mute_evaluate_def r)
    qed
    have "bs < 3"
    proof (cases b)
      case None
      with best_loop_first [OF r] have "bs = 0" by auto
      then show ?thesis by simp
    next
      case (Some i)
      with False show ?thesis by simp
    qed
    with all have "\<forall>j < length pg. clickable (pg ! j) \<longrightarrow> score (pg ! j) < 3"
      by (meson le_less_trans)
    with nc show ?thesis by blast
  next
    case True
    then obtain i where b: "b = Some i" and three: "3 \<le> bs" by blast
    with best_loop_first [OF r] obtain pre c post
      where c: "candidates pg = pre @ c # post" and ci: "fst c = i"
        and sc: "score (snd c) = bs" and first: "\<forall>d \<in> set pre. score (snd d) < bs"
      by auto
    from candidates_position [OF c] ci have i: "i < length pg" and el: "snd c = pg ! i"
      and cl: "clickable (pg ! i)"
      and earlier: "\<forall>j < i. clickable (pg ! j) \<longrightarrow> (j, pg ! j) \<in> set pre"
      by auto
    have ev: "mute_evaluate pg = (pg[i := (pg ! i)\<lparr>ww_click := True\<rparr>], True)"
      using b three by (simp add: mute_evaluate_def r)
    have "page_click_marked (pg[i := (pg ! i)\<lparr>ww_click := True\<rparr>]) =
        (if rendered (pg ! i) then Inr i
         else Inl ''Node is either not clickable or not an Element'')"
      using one_marker_filter [OF assms i, of "(pg ! i)\<lparr>ww_click := True\<rparr>" 0]
      by (simp add: page_click_marked_def)
    with ev have click: "clickMuteHeuristic pg =
        (if rendered (pg ! i)
         then Inr (pg[i := (pg ! i)\<lparr>ww_click := True\<rparr>], Some i)
         else Inl ''Node is either not clickable or not an Element'')"
      by (simp add: clickMuteHeuristic_def)
    have s: "score (pg ! i) = bs"
      using sc el by simp
    have strict: "\<forall>j < i. clickable (pg ! j) \<longrightarrow> score (pg ! j) < score (pg ! i)"
    proof (intro allI impI)
      fix j assume "j < i" "clickable (pg ! j)"
      with earlier have "(j, pg ! j) \<in> set pre" by blast
      with first have "score (snd (j, pg ! j)) < bs" by blast
      with s show "score (pg ! j) < score (pg ! i)" by simp
    qed
    have most: "\<forall>j < length pg. clickable (pg ! j) \<longrightarrow> score (pg ! j) \<le> score (pg ! i)"
      using all s by simp
    from click i cl three s most strict show ?thesis by auto
  qed
qed

text \<open>
  C6. The action is to click the highest-scoring element when its score is at least 3:
  given a "Sound" element (score 2) and a "No Sound" element (score 5), the latter. On a
  page whose "Sound" link already carries \<^verbatim>\<open>data-ww-click="1"\<close> (from the page's own
  markup, or from an earlier heuristic-mute step, which leaves its marker behind), the
  code scores "No Sound" best, marks it, and then clicks the first element that matches
  \<^verbatim>\<open>[data-ww-click="1"]\<close>: the "Sound" link at position 0, of score 2.
\<close>

theorem clickMuteHeuristic_clicks_stale_marker:
  "clickMuteHeuristic [marked_link ''Sound'', btn ''No Sound''] =
     Inr ([marked_link ''Sound'', (btn ''No Sound'')\<lparr>ww_click := True\<rparr>], Some 0)
   \<and> score (marked_link ''Sound'') = 2 \<and> score (btn ''No Sound'') = 5"
  by (simp add: mute_defs)

section \<open>Properties of the paint wait\<close>

lemma timer_delay_positive: "1 \<le> timer_delay after"
  by (simp add: timer_delay_def split: option.splits)

text \<open>As long as no poll decides, poll \<open>k\<close> begins at \<open>poll_time P intervalMs k\<close>:
  the polls are \<^verbatim>\<open>intervalMs\<close> apart, plus what a poll takes and a timer is late.\<close>

lemma paint_loop_skip:
  assumes "\<forall>j < k. \<exists>doc. poll P j = Inr doc \<and> \<not> painted doc \<and>
      \<not> exceeds (poll_time P intervalMs j + poll_ms P j - clock_start P)
          (to_number (reader P) timeoutMs)"
  shows "waitForCanvasPaint P timeoutMs intervalMs =
      paint_loop P (clock_start P) timeoutMs intervalMs k (poll_time P intervalMs k)"
  using assms
proof (induction k)
  case 0
  then show ?case by (simp add: waitForCanvasPaint_def)
next
  case (Suc k)
  from Suc.prems obtain doc where here: "poll P k = Inr doc" "\<not> painted doc"
      "\<not> exceeds (poll_time P intervalMs k + poll_ms P k - clock_start P)
          (to_number (reader P) timeoutMs)"
    by blast
  from Suc.prems have "\<forall>j < k. \<exists>doc. poll P j = Inr doc \<and> \<not> painted doc \<and>
      \<not> exceeds (poll_time P intervalMs j + poll_ms P j - clock_start P)
          (to_number (reader P) timeoutMs)"
    by simp
  then have "waitForCanvasPaint P timeoutMs intervalMs =
      paint_loop P (clock_start P) timeoutMs intervalMs k (poll_time P intervalMs k)"
    by (rule Suc.IH)
  also have "\<dots> = paint_loop P (clock_start P) timeoutMs intervalMs (Suc k)
      (poll_time P intervalMs (Suc k))"
    using here by (subst paint_loop.simps) simp
  finally show ?case .
qed

text \<open>The outcome at the first poll that decides: the error of a poll that rejects,
  success on a painted page, the timeout on a page that is not painted once the clock
  reads more than \<^verbatim>\<open>timeoutMs\<close> past the start.\<close>

lemma waitForCanvasPaint_outcome:
  assumes "\<forall>j < k. \<exists>doc. poll P j = Inr doc \<and> \<not> painted doc \<and>
      \<not> exceeds (poll_time P intervalMs j + poll_ms P j - clock_start P)
          (to_number (reader P) timeoutMs)"
  shows "(poll P k = Inl e \<longrightarrow> waitForCanvasPaint P timeoutMs intervalMs = Some (Inl e)) \<and>
         (poll P k = Inr doc \<and> painted doc \<longrightarrow>
            waitForCanvasPaint P timeoutMs intervalMs = Some (Inr ())) \<and>
         (poll P k = Inr doc \<and> \<not> painted doc \<and>
            exceeds (poll_time P intervalMs k + poll_ms P k - clock_start P)
              (to_number (reader P) timeoutMs) \<longrightarrow>
            waitForCanvasPaint P timeoutMs intervalMs = Some (Inl ''waitForCanvasPaint timeout''))"
proof -
  have skip: "waitForCanvasPaint P timeoutMs intervalMs =
      paint_loop P (clock_start P) timeoutMs intervalMs k (poll_time P intervalMs k)"
    by (rule paint_loop_skip [OF assms])
  have a: "waitForCanvasPaint P timeoutMs intervalMs = Some (Inl e)" if "poll P k = Inl e"
    unfolding skip using that by (subst paint_loop.simps) simp
  have b: "waitForCanvasPaint P timeoutMs intervalMs = Some (Inr ())"
    if "poll P k = Inr doc" "painted doc"
    unfolding skip using that by (subst paint_loop.simps) simp
  have c: "waitForCanvasPaint P timeoutMs intervalMs = Some (Inl ''waitForCanvasPaint timeout'')"
    if "poll P k = Inr doc" "\<not> painted doc"
      "exceeds (poll_time P intervalMs k + poll_ms P k - clock_start P)
         (to_number (reader P) timeoutMs)"
    unfolding skip using that by (subst paint_loop.simps) simp
  from a b c show ?thesis by blast
qed

text \<open>The loop returns when the timeout is a number and the clock does not run
  backwards: a timer waits at least one millisecond.\<close>

lemma paint_loop_returns:
  assumes "\<forall>i. 0 \<le> poll_ms P i" and "\<forall>i. 0 \<le> timer_late P i"
    and "to_number (reader P) timeoutMs = Some n"
  shows "\<exists>r. paint_loop P t0 timeoutMs intervalMs i t = Some r"
proof (induction "nat (n + t0 - t + 1)" arbitrary: i t rule: less_induct)
  case less
  show ?case
  proof (cases "poll P i")
    case (Inl e)
    then show ?thesis by (subst paint_loop.simps) simp
  next
    case (Inr doc)
    show ?thesis
    proof (cases "painted doc \<or> exceeds (t + poll_ms P i - t0) (to_number (reader P) timeoutMs)")
      case True
      then show ?thesis using Inr by (subst paint_loop.simps) auto
    next
      case False
      define t' where "t' = t + poll_ms P i + timer_delay (to_number (reader P) intervalMs)
                    + timer_late P i"
      from False assms(3) have le: "t + poll_ms P i - t0 \<le> n"
        by (simp add: exceeds_def)
      have "0 \<le> poll_ms P i" "0 \<le> timer_late P i" using assms by simp_all
      moreover have "1 \<le> timer_delay (to_number (reader P) intervalMs)"
        by (rule timer_delay_positive)
      ultimately have "nat (n + t0 - t' + 1) < nat (n + t0 - t + 1)"
        using le unfolding t'_def by simp
      from less [OF this] obtain r
        where "paint_loop P t0 timeoutMs intervalMs (Suc i) t' = Some r" by blast
      then show ?thesis
        using False Inr unfolding t'_def by (subst paint_loop.simps) simp
    qed
  qed
qed

lemma waitForCanvasPaint_returns:
  assumes "\<forall>i. 0 \<le> poll_ms P i" and "\<forall>i. 0 \<le> timer_late P i"
    and "to_number (reader P) timeoutMs = Some n"
  shows "\<exists>r. waitForCanvasPaint P timeoutMs intervalMs = Some r"
  unfolding waitForCanvasPaint_def by (rule paint_loop_returns [OF assms])

lemma list_ex_rectangle:
  "list_ex P (concat (map (\<lambda>y. map (\<lambda>x. f x y) [0..<w]) [0..<h])) \<longleftrightarrow>
     (\<exists>x < w. \<exists>y < h. P (f x y))"
proof
  assume "list_ex P (concat (map (\<lambda>y. map (\<lambda>x. f x y) [0..<w]) [0..<h]))"
  then obtain y x where "y < h" "x < w" "P (f x y)"
    by (auto simp: list_ex_iff)
  then show "\<exists>x < w. \<exists>y < h. P (f x y)" by blast
next
  assume "\<exists>x < w. \<exists>y < h. P (f x y)"
  then obtain x y where "x < w" "y < h" "P (f x y)" by blast
  then have "y \<in> set [0..<h]" "x \<in> set [0..<w]" "P (f x y)" by simp_all
  then have "\<exists>y \<in> set [0..<h]. \<exists>x \<in> set [0..<w]. P (f x y)" by blast
  then show "list_ex P (concat (map (\<lambda>y. map (\<lambda>x. f x y) [0..<w]) [0..<h]))"
    by (simp add: list_ex_iff)
qed

text \<open>
  On a canvas with a 2D context, no taint and at least one pixel, the poll answers
  whether some pixel of the top-left rectangle of at most 64 by 64 pixels is neither
  fully transparent nor pure white. A canvas without 2D context and a tainted canvas
  with pixels count as painted.
\<close>

lemma painted_sampled:
  assumes "has_2d c" and "\<not> tainted c" and "0 < width c" and "0 < height c"
  shows "painted (Some c) \<longleftrightarrow>
     (\<exists>x < min 64 (width c). \<exists>y < min 64 (height c). pixel_painted (pixel c x y))"
proof -
  from assms have "getImageData c (min 64 (width c)) (min 64 (height c)) =
      Inr (concat (map (\<lambda>y. map (\<lambda>x. pixel c x y) [0..<min 64 (width c)])
                    [0..<min 64 (height c)]))"
    by (simp add: getImageData_def)
  then show ?thesis
    using assms by (simp add: painted_def list_ex_rectangle)
qed

lemma painted_by_presence:
  assumes "\<not> has_2d c \<or> tainted c"
  shows "painted (Some c)"
  using assms by (auto simp: painted_def getImageData_def)

lemma painted_examples:
  "painted (Some drawn) \<and> \<not> painted (Some blank) \<and> painted (Some (blank\<lparr>tainted := True\<rparr>))
   \<and> painted (Some (blank\<lparr>has_2d := False\<rparr>)) \<and> \<not> painted None"
  by code_simp

text \<open>A page that is drawn at the third poll resolves the wait; the third poll begins
  1008 ms after the start, two polls of 3 ms, two sleeps of 500 ms and two late timers
  of 1 ms.\<close>

lemma slow_page_resolves:
  "waitForCanvasPaint slow_page (JNum 60000) (JNum 500) = Some (Inr ()) \<and>
   poll_time slow_page (JNum 500) 2 = clock_start slow_page + 1008"
proof -
  have p: "painted (Some drawn)" "\<not> painted (Some blank)"
    using painted_examples by simp_all
  have t: "poll_time slow_page (JNum 500) 2 = clock_start slow_page + 1008"
    by code_simp
  have "waitForCanvasPaint slow_page (JNum 60000) (JNum 500) = Some (Inr ())"
    unfolding waitForCanvasPaint_def
    apply (subst paint_loop.simps, simp add: p slow_page_def still_def exceeds_def timer_delay_def)
    apply (subst paint_loop.simps, simp add: p slow_page_def still_def exceeds_def timer_delay_def)
    apply (subst paint_loop.simps, simp add: p slow_page_def still_def exceeds_def timer_delay_def)
    done
  with t show ?thesis by simp
qed

text \<open>
  C8. The claim holds of the documented behaviour and not of the code. A page whose
  first canvas has a 2D context, is not tainted and has width 0 shows no sampled pixel
  that is painted, and its pixel access is not denied by taint: the paint wait has to
  poll until the deadline and raise the timeout error, as it does for a white canvas of
  two pixels. But \<^verbatim>\<open>getImageData\<close> throws on the empty rectangle, the \<^verbatim>\<open>catch\<close>
  written for the tainted canvas answers that the page is painted, and the wait
  resolves at the first poll.
\<close>

theorem waitForCanvasPaint_resolves_on_empty_canvas:
  "has_2d empty_canvas \<and> \<not> tainted empty_canvas \<and>
   getImageData empty_canvas (min 64 (width empty_canvas)) (min 64 (height empty_canvas)) =
     Inl ''IndexSizeError'' \<and>
   waitForCanvasPaint (still empty_canvas) (JNum 1200) (JNum 500) = Some (Inr ()) \<and>
   waitForCanvasPaint (still blank) (JNum 1200) (JNum 500) =
     Some (Inl ''waitForCanvasPaint timeout'')"
proof -
  have c: "has_2d empty_canvas \<and> \<not> tainted empty_canvas \<and>
      getImageData empty_canvas (min 64 (width empty_canvas)) (min 64 (height empty_canvas)) =
        Inl ''IndexSizeError''"
    by code_simp
  have p: "painted (Some empty_canvas)" "\<not> painted (Some blank)"
    by code_simp+
  have a: "waitForCanvasPaint (still empty_canvas) (JNum 1200) (JNum 500) = Some (Inr ())"
    unfolding waitForCanvasPaint_def
    by (subst paint_loop.simps) (simp add: p still_def)
  have b: "waitForCanvasPaint (still blank) (JNum 1200) (JNum 500) =
      Some (Inl ''waitForCanvasPaint timeout'')"
    unfolding waitForCanvasPaint_def
    apply (subst paint_loop.simps, simp add: p still_def exceeds_def timer_delay_def)
    apply (subst paint_loop.simps, simp add: p still_def exceeds_def timer_delay_def)
    apply (subst paint_loop.simps, simp add: p still_def exceeds_def timer_delay_def)
    apply (subst paint_loop.simps, simp add: p still_def exceeds_def timer_delay_def)
    done
  from a b c show ?thesis by simp
qed

section \<open>Properties of the extraction\<close>

lemma extract_one_four:
  assumes "field s ''type'' \<in> set four_kinds" and "doc (field s ''selector'') = Inr els"
  shows "extract_one doc s = Inr (Some (spec_entry s els))"
proof -
  from assms(1) have s: "s \<noteq> JNull" "s \<noteq> JUndef" by (auto simp: four_kinds_def)
  from assms(1) consider "field s ''type'' = JStr ''text''" | "field s ''type'' = JStr ''attr''"
    | "field s ''type'' = JStr ''html''" | "field s ''type'' = JStr ''exists''"
    by (auto simp: four_kinds_def)
  then show ?thesis
  proof cases
    case 1
    then show ?thesis using s assms(2)
      by (cases els)
         (simp_all add: extract_one_def spec_entry_def spec_value_def spec_reading_def pick_def)
  next
    case 2
    then show ?thesis using s assms(2)
      by (cases els)
         (simp_all add: extract_one_def spec_entry_def spec_value_def spec_reading_def pick_def
            truthy_or_def)
  next
    case 3
    then show ?thesis using s assms(2)
      by (cases els)
         (simp_all add: extract_one_def spec_entry_def spec_value_def spec_reading_def pick_def)
  next
    case 4
    then show ?thesis using s assms(2)
      by (simp add: extract_one_def spec_entry_def spec_value_def)
  qed
qed

lemma extract_one_rejected:
  assumes "field s ''type'' \<in> set four_kinds" and "doc (field s ''selector'') = Inl e"
  shows "extract_one doc s = Inl e"
proof -
  from assms(1) have s: "s \<noteq> JNull" "s \<noteq> JUndef" by (auto simp: four_kinds_def)
  from assms(1) consider "field s ''type'' = JStr ''text''" | "field s ''type'' = JStr ''attr''"
    | "field s ''type'' = JStr ''html''" | "field s ''type'' = JStr ''exists''"
    by (auto simp: four_kinds_def)
  then show ?thesis
    using s assms(2) by cases (simp_all add: extract_one_def)
qed

lemma extract_loop_acc:
  assumes "\<forall>s \<in> set specs. field s ''type'' \<in> set four_kinds"
    and "\<forall>s \<in> set specs. accepted doc s"
  shows "extract_loop doc specs acc = Inr (acc @ map (\<lambda>s. spec_entry s (matches doc s)) specs)"
  using assms
proof (induction specs arbitrary: acc)
  case Nil
  then show ?case by simp
next
  case (Cons s specs)
  from Cons.prems have "accepted doc s" by simp
  then obtain els where els: "doc (field s ''selector'') = Inr els"
    by (auto simp: accepted_def split: sum.splits)
  then have m: "matches doc s = els" by (simp add: matches_def)
  from Cons.prems have k: "field s ''type'' \<in> set four_kinds" by simp
  have one: "extract_one doc s = Inr (Some (spec_entry s els))"
    using extract_one_four [where doc = doc, OF k els] .
  from Cons.prems have p1: "\<forall>s \<in> set specs. field s ''type'' \<in> set four_kinds"
    and p2: "\<forall>s \<in> set specs. accepted doc s" by simp_all
  show ?case
    using one m Cons.IH [OF p1 p2, of "acc @ [spec_entry s els]"] by simp
qed

text \<open>The pass throws at the first spec whose selector the page rejects.\<close>

lemma extract_loop_rejected:
  assumes "\<forall>s \<in> set front. field s ''type'' \<in> set four_kinds"
    and "\<forall>s \<in> set front. accepted doc s"
    and "field s ''type'' \<in> set four_kinds" and "doc (field s ''selector'') = Inl e"
  shows "extract_loop doc (front @ s # rest) acc = Inl e"
  using assms
proof (induction front arbitrary: acc)
  case Nil
  then show ?case by (simp add: extract_one_rejected)
next
  case (Cons t front)
  from Cons.prems have "accepted doc t" by simp
  then obtain els where els: "doc (field t ''selector'') = Inr els"
    by (auto simp: accepted_def split: sum.splits)
  from Cons.prems have k: "field t ''type'' \<in> set four_kinds" by simp
  have one: "extract_one doc t = Inr (Some (spec_entry t els))"
    using extract_one_four [where doc = doc, OF k els] .
  from Cons.prems have p1: "\<forall>s \<in> set front. field s ''type'' \<in> set four_kinds"
    and p2: "\<forall>s \<in> set front. accepted doc s" by simp_all
  show ?case
    using one Cons.IH [OF p1 p2 Cons.prems(3) Cons.prems(4), of "acc @ [spec_entry t els]"]
    by simp
qed

lemma performExtracts_throws_at_first_rejected:
  assumes "\<forall>s \<in> set front. field s ''type'' \<in> set four_kinds"
    and "\<forall>s \<in> set front. accepted doc s"
    and "field s ''type'' \<in> set four_kinds" and "doc (field s ''selector'') = Inl e"
  shows "performExtracts doc (front @ s # rest) = Inl e"
  using extract_loop_rejected [OF assms] by (simp add: performExtracts_def)

text \<open>A spec that is \<^verbatim>\<open>null\<close> makes the pass throw a \<^verbatim>\<open>TypeError\<close>; a spec of
  another type than the four is skipped and leaves no entry.\<close>

lemma performExtracts_null_spec:
  "performExtracts demo_doc [JNull] = Inl ''Cannot read properties of null (reading 'type')''"
  by code_simp

lemma performExtracts_skips_other_type:
  "performExtracts demo_doc
     [JObj [(''type'', JStr ''count''), (''selector'', JStr ''#t'')],
      JObj [(''type'', JStr ''exists''), (''selector'', JStr ''#t'')]] =
   Inr [JObj [(''type'', JStr ''exists''), (''name'', JUndef), (''selector'', JStr ''#t''),
              (''value'', JBool True)]]"
  by code_simp

lemma demo_run:
  "performExtracts demo_doc demo_specs =
     Inr [JObj [(''type'', JStr ''text''), (''name'', JUndef), (''selector'', JStr ''#t''),
                (''value'', JStr ''Hi'')],
          JObj [(''type'', JStr ''html''), (''name'', JStr ''h''), (''selector'', JStr ''#none''),
                (''value'', JNull)],
          JObj [(''type'', JStr ''exists''), (''name'', JUndef), (''selector'', JStr ''#none''),
                (''value'', JBool False)],
          JObj [(''type'', JStr ''attr''), (''key'', JStr ''ID''), (''selector'', JStr ''#t''),
                (''value'', JArr [JStr ''t''])]]"
  by code_simp

text \<open>
  C7, as claimed, fails: a \<^verbatim>\<open>text\<close> spec whose selector the page rejects makes the
  pass throw the error of the page, and no result array is returned.
\<close>

theorem performExtracts_rejected_selector:
  "performExtracts demo_doc [JObj [(''type'', JStr ''text''), (''selector'', JStr ''##'')]] =
     Inl ''SyntaxError: Failed to execute 'querySelectorAll' on 'Document': '##' is not a valid selector.''"
  by code_simp

text \<open>
  C7, amended. For every list of extraction specs of the four kinds (\<^verbatim>\<open>text\<close>,
  \<^verbatim>\<open>attr\<close>, \<^verbatim>\<open>html\<close>, \<^verbatim>\<open>exists\<close>) whose selectors the page accepts, the extraction
  pass returns the result array that has, in spec order, one entry per spec: the entry
  carries the type, the name (for \<^verbatim>\<open>attr\<close>, the key, which is the name without a
  key), the selector, and the value read from the final page state, which is the
  trimmed text, the attribute or the outer HTML of the first match, the array of these
  over all matches when the all-flag is set, and a boolean for \<^verbatim>\<open>exists\<close>. In
  particular a \<^verbatim>\<open>text\<close>, \<^verbatim>\<open>attr\<close> or \<^verbatim>\<open>html\<close> spec without the all-flag whose
  selector matches no element yields \<^verbatim>\<open>null\<close>, not an error, and an \<^verbatim>\<open>exists\<close>
  spec yields whether its selector matches.
\<close>

theorem performExtracts_by_spec:
  assumes "\<forall>s \<in> set specs. field s ''type'' \<in> set four_kinds"
    and "\<forall>s \<in> set specs. accepted doc s"
  shows "performExtracts doc specs = Inr (map (\<lambda>s. spec_entry s (matches doc s)) specs) \<and>
         (\<forall>s \<in> set specs. field s ''type'' \<noteq> JStr ''exists'' \<and> \<not> truthy (field s ''all'') \<and>
              matches doc s = [] \<longrightarrow>
            field (spec_entry s (matches doc s)) ''value'' = JNull) \<and>
         (\<forall>s \<in> set specs. field s ''type'' = JStr ''exists'' \<longrightarrow>
            field (spec_entry s (matches doc s)) ''value'' = JBool (matches doc s \<noteq> []))"
proof (intro conjI ballI impI)
  show "performExtracts doc specs = Inr (map (\<lambda>s. spec_entry s (matches doc s)) specs)"
    using extract_loop_acc [OF assms, of "[]"] by (simp add: performExtracts_def)
next
  fix s
  assume "field s ''type'' \<noteq> JStr ''exists'' \<and> \<not> truthy (field s ''all'') \<and> matches doc s = []"
  then show "field (spec_entry s (matches doc s)) ''value'' = JNull"
    by (simp add: spec_entry_def spec_value_def)
next
  fix s
  assume "field s ''type'' = JStr ''exists''"
  then show "field (spec_entry s (matches doc s)) ''value'' = JBool (matches doc s \<noteq> [])"
    by (simp add: spec_entry_def spec_value_def)
qed

theorem performExtracts_by_spec_witness:
  "performExtracts demo_doc demo_specs =
     Inr (map (\<lambda>s. spec_entry s (matches demo_doc s)) demo_specs) \<and>
   map (\<lambda>s. spec_entry s (matches demo_doc s)) demo_specs =
     [JObj [(''type'', JStr ''text''), (''name'', JUndef), (''selector'', JStr ''#t''),
            (''value'', JStr ''Hi'')],
      JObj [(''type'', JStr ''html''), (''name'', JStr ''h''), (''selector'', JStr ''#none''),
            (''value'', JNull)],
      JObj [(''type'', JStr ''exists''), (''name'', JUndef), (''selector'', JStr ''#none''),
            (''value'', JBool False)],
      JObj [(''type'', JStr ''attr''), (''key'', JStr ''ID''), (''selector'', JStr ''#t''),
            (''value'', JArr [JStr ''t''])]]"
proof -
  have h1: "\<forall>s \<in> set demo_specs. field s ''type'' \<in> set four_kinds"
    by (simp add: demo_specs_def four_kinds_def)
  have h2: "\<forall>s \<in> set demo_specs. accepted demo_doc s"
    by (simp add: demo_specs_def demo_doc_def accepted_def)
  from performExtracts_by_spec [OF h1 h2]
  have run: "performExtracts demo_doc demo_specs =
      Inr (map (\<lambda>s. spec_entry s (matches demo_doc s)) demo_specs)" by blast
  with demo_run show ?thesis by simp
qed

section \<open>Properties of the action executor\<close>

lemma recognized_cases:
  assumes "t \<in> set recognized"
  shows "t = ''waitForSelector'' \<or> t = ''click'' \<or> t = ''hover'' \<or> t = ''type''
    \<or> t = ''screenshotElement'' \<or> t = ''clickAt'' \<or> t = ''waitForTime''
    \<or> t = ''waitForFunction'' \<or> t = ''waitForCanvasPaint'' \<or> t = ''muteHeuristic''
    \<or> t = ''press''"
  using assms unfolding recognized_def needs_selector_def by simp

lemma dispatch_unrecognized:
  assumes "field a ''type'' = JStr t" and "t \<notin> set recognized"
  shows "dispatch E i a outDir = ok ()"
proof -
  from assms(2) have ne: "t \<noteq> ''waitForSelector''" "t \<noteq> ''click''" "t \<noteq> ''hover''"
    "t \<noteq> ''type''" "t \<noteq> ''screenshotElement''" "t \<noteq> ''clickAt''" "t \<noteq> ''waitForTime''"
    "t \<noteq> ''waitForFunction''" "t \<noteq> ''waitForCanvasPaint''" "t \<noteq> ''muteHeuristic''"
    "t \<noteq> ''press''"
    unfolding recognized_def needs_selector_def by simp_all
  show ?thesis
    unfolding dispatch_def Let_def assms(1) json.inject using ne by simp
qed

lemma unusable_kind:
  assumes "field a ''type'' = JStr t" and "unusable a"
  shows "t \<notin> set recognized
          \<or> (t \<in> set needs_selector \<and> \<not> truthy (field a ''selector''))
          \<or> (t = ''type'' \<and> \<not> is_string (field a ''text''))
          \<or> (t = ''clickAt'' \<and> \<not> (is_number (field a ''x'') \<and> is_number (field a ''y'')))
          \<or> (t = ''waitForTime'' \<and> \<not> is_number (field a ''ms''))
          \<or> (t = ''waitForFunction'' \<and> \<not> truthy (field a ''fn''))
          \<or> (t = ''press'' \<and> \<not> truthy (field a ''key''))"
  using assms(2) unfolding unusable_def assms(1) by simp

lemma dispatch_missing_field:
  assumes ty: "field a ''type'' = JStr t" and rec: "t \<in> set recognized" and un: "unusable a"
  shows "dispatch E i a outDir = ok ()"
proof -
  note k = unusable_kind [OF ty un]
  from recognized_cases [OF rec] show ?thesis
  proof (elim disjE)
    assume t: "t = ''waitForSelector''"
    with k have "\<not> truthy (field a ''selector'')"
      by (simp add: recognized_def needs_selector_def)
    then show ?thesis
      unfolding dispatch_def Let_def ty t by simp
  next
    assume t: "t = ''click''"
    with k have "\<not> truthy (field a ''selector'')"
      by (simp add: recognized_def needs_selector_def)
    then show ?thesis
      unfolding dispatch_def Let_def ty t by simp
  next
    assume t: "t = ''hover''"
    with k have "\<not> truthy (field a ''selector'')"
      by (simp add: recognized_def needs_selector_def)
    then show ?thesis
      unfolding dispatch_def Let_def ty t by simp
  next
    assume t: "t = ''type''"
    with k have "\<not> truthy (field a ''selector'') \<or> \<not> is_string (field a ''text'')"
      by (simp add: recognized_def needs_selector_def)
    then show ?thesis
      unfolding dispatch_def Let_def ty t by auto
  next
    assume t: "t = ''screenshotElement''"
    with k have "\<not> truthy (field a ''selector'')"
      by (simp add: recognized_def needs_selector_def)
    then show ?thesis
      unfolding dispatch_def Let_def ty t by simp
  next
    assume t: "t = ''clickAt''"
    with k have "\<not> (is_number (field a ''x'') \<and> is_number (field a ''y''))"
      by (simp add: recognized_def needs_selector_def)
    then show ?thesis
      unfolding dispatch_def Let_def ty t by auto
  next
    assume t: "t = ''waitForTime''"
    with k have "\<not> is_number (field a ''ms'')"
      by (simp add: recognized_def needs_selector_def)
    then show ?thesis
      unfolding dispatch_def Let_def ty t by simp
  next
    assume t: "t = ''waitForFunction''"
    with k have "\<not> truthy (field a ''fn'')"
      by (simp add: recognized_def needs_selector_def)
    then show ?thesis
      unfolding dispatch_def Let_def ty t by simp
  next
    assume t: "t = ''waitForCanvasPaint''"
    with k show ?thesis
      by (simp add: recognized_def needs_selector_def)
  next
    assume t: "t = ''muteHeuristic''"
    with k show ?thesis
      by (simp add: recognized_def needs_selector_def)
  next
    assume t: "t = ''press''"
    with k have "\<not> truthy (field a ''key'')"
      by (simp add: recognized_def needs_selector_def)
    then show ?thesis
      unfolding dispatch_def Let_def ty t by simp
  qed
qed

lemma and_then_ok: "and_then (ok v) f = f v"
  by (rule ext) (simp add: and_then_def ok_def split: prod.splits)

lemma and_then_ok_right: "and_then m ok = m"
  by (rule ext) (auto simp: and_then_def ok_def split: prod.splits sum.splits)

lemma if_then_False: "if_then False m = ok ()"
  by (simp add: if_then_def)

lemma dispatch_unusable:
  assumes "unusable a"
  shows "dispatch E i a outDir = ok ()"
proof (cases "field a ''type''")
  case (JStr t)
  show ?thesis
  proof (cases "t \<in> set recognized")
    case True
    from JStr True assms show ?thesis by (rule dispatch_missing_field)
  next
    case False
    from JStr False show ?thesis by (rule dispatch_unrecognized)
  qed
qed (simp_all add: dispatch_def Let_def)

text \<open>Unusable: an unknown type, a click without selector, a point-click whose
  coordinates are strings, and \<^verbatim>\<open>null\<close>. Usable: a key press with its key.\<close>

lemma unusable_examples:
  "unusable (JObj [(''type'', JStr ''scroll'')]) \<and>
   unusable (JObj [(''type'', JStr ''click'')]) \<and>
   unusable (JObj [(''type'', JStr ''clickAt''), (''x'', JStr ''10''), (''y'', JStr ''20'')]) \<and>
   unusable JNull \<and>
   \<not> unusable (JObj [(''type'', JStr ''press''), (''key'', JStr ''Enter'')])"
  by (simp add: unusable_def recognized_def needs_selector_def)

text \<open>
  C10. For an action whose type is not one of the recognised kinds, or whose kind lacks
  a field it needs (a click without selector, a point-click with coordinates that are
  not numbers), the executor performs no operation and raises no error: the dispatch has
  no effect and returns, and the run of the sequence from that action on is the
  per-step snapshot, if step-tracing was requested, followed by the run of the remaining
  actions from the next index.
\<close>

theorem runActions_skips_unusable:
  assumes "unusable a"
  shows "dispatch E i a outDir n = ([], Inr ()) \<and>
         actions_from E i (a # rest) outDir snapAfterEach =
           seq [if_then snapAfterEach (step_snapshot E i outDir),
                actions_from E (i + 1) rest outDir snapAfterEach] \<and>
         actions_from E i (a # rest) outDir False = actions_from E (i + 1) rest outDir False"
proof -
  have d: "dispatch E i a outDir = ok ()"
    using assms by (rule dispatch_unusable)
  have a: "dispatch E i a outDir n = ([], Inr ())"
    by (simp add: d ok_def)
  have b: "actions_from E i (a # rest) outDir snapAfterEach =
           seq [if_then snapAfterEach (step_snapshot E i outDir),
                actions_from E (i + 1) rest outDir snapAfterEach]" for snapAfterEach
    by (simp add: d and_then_ok)
  have c: "actions_from E i (a # rest) outDir False = actions_from E (i + 1) rest outDir False"
    by (simp add: d and_then_ok if_then_False and_then_ok_right)
  from a b c show ?thesis by blast
qed

lemma press_after_skip:
  "seq [if_then True (step_snapshot calm 0 ''/srv/ww/responses/job1''),
        actions_from calm (0 + 1)
          [JObj [(''type'', JStr ''press''), (''key'', JStr ''Enter'')]]
          ''/srv/ww/responses/job1'' True] 0
   = ([Eng (Screenshot ''/srv/ww/responses/job1/step-01.png'' True),
       Eng (KeyboardPress (JStr ''Enter'') (JNum 0)),
       Eng (Screenshot ''/srv/ww/responses/job1/step-02.png'' True)], Inr ())"
  by code_simp

theorem runActions_skips_unusable_witness:
  "runActions calm
     [JObj [(''type'', JStr ''click'')],
      JObj [(''type'', JStr ''press''), (''key'', JStr ''Enter'')]]
     ''/srv/ww/responses/job1'' True 0
   = ([Eng (Screenshot ''/srv/ww/responses/job1/step-01.png'' True),
       Eng (KeyboardPress (JStr ''Enter'') (JNum 0)),
       Eng (Screenshot ''/srv/ww/responses/job1/step-02.png'' True)], Inr ())"
proof -
  have u: "unusable (JObj [(''type'', JStr ''click'')])"
    using unusable_examples by simp
  have "runActions calm
     [JObj [(''type'', JStr ''click'')],
      JObj [(''type'', JStr ''press''), (''key'', JStr ''Enter'')]]
     ''/srv/ww/responses/job1'' True
    = seq [if_then True (step_snapshot calm 0 ''/srv/ww/responses/job1''),
           actions_from calm (0 + 1)
             [JObj [(''type'', JStr ''press''), (''key'', JStr ''Enter'')]]
             ''/srv/ww/responses/job1'' True]"
    unfolding runActions_def using runActions_skips_unusable [OF u] by blast
  then show ?thesis
    by (simp only: press_after_skip)
qed

section \<open>Properties of the worker\<close>








text \<open>An id that is truthy and not a string, as the number 7, makes \<^verbatim>\<open>path.join\<close>
  throw: the error response makes no call at all, and the job is left without
  artifacts.\<close>

lemma write_error_response_without_id:
  assumes "\<forall>jid. truthy_or (field raw ''id'') (JStr uuid) \<noteq> JStr jid"
  shows "write_error_response E responsesDir raw uuid msg n = ([], Inr ())"
  using assms
  by (cases "truthy_or (field raw ''id'') (JStr uuid)")
     (simp_all add: write_error_response_def attempt_def throw_def)







text \<open>A navigation that fails gives the marker with its error, and a disk that fills up
  once the page is closed leaves the job without marker.\<close>

lemma failing_result:
  "snd (processRequest failing job1 RESPONSES_DIR None) = Some ''net::ERR_FAILED'' \<and>
   last (fst (processRequest failing job1 RESPONSES_DIR None)) =
     Rename ''/srv/ww/responses/job1/.done.json.tmp-u14'' ''/srv/ww/responses/job1/done.json''"
  by code_simp

lemma no_marker_on_full_disk:
  "snd (processRequest disk_full job1 RESPONSES_DIR None) = Some ''ENOSPC: no space left on device''
   \<and> [e \<leftarrow> fst (processRequest disk_full job1 RESPONSES_DIR None).
         creates e = Some ''/srv/ww/responses/job1/done.json''] = []"
  by code_simp

text \<open>The order holds within one run. When a job is run twice, as after a duplicate
  delivery, the second run writes the artifacts of the same output location again,
  after the marker of the first run.\<close>

lemma second_run_writes_after_marker:
  "creates (fst (processRequest calm job1 RESPONSES_DIR None) ! 20) =
     Some ''/srv/ww/responses/job1/done.json'' \<and>
   length (fst (processRequest calm job1 RESPONSES_DIR None)) = 21 \<and>
   creates ((fst (processRequest calm job1 RESPONSES_DIR None) @
             fst (processRequest calm job1 RESPONSES_DIR None)) ! 24) =
     Some ''/srv/ww/responses/job1/meta.json''"
  by code_simp

text \<open>A delay given as a string is converted: \<^verbatim>\<open>'50'\<close> sleeps 50 ms, and a delay
  above five minutes is cut.\<close>

lemma post_wait_examples:
  "post_wait (calm\<lparr>string_number := (\<lambda>s. if s = ''50'' then Some 50 else None)\<rparr>) (JStr ''50'')
     = Some 50 \<and>
   post_wait calm (JNum 400000) = Some 300000 \<and>
   post_wait calm (JNum 0) = None \<and>
   post_wait calm (JBool True) = Some 1 \<and>
   post_wait calm JUndef = None"
  by code_simp

lemma processRequest_first_effect:
  "\<exists>rest. fst (processRequest E req responsesDir context) =
     Mkdir (path_join [responsesDir, req_id req]) # rest"
  unfolding processRequest_def Let_def
  by (simp add: and_then_def ensureDir_def fs_call_def split: prod.splits sum.splits option.splits)

lemma normalizeRequest_id:
  assumes "normalizeRequest uuid raw = Inr req"
  shows "req_id req = (if truthy (field raw ''id'') then js_String (field raw ''id'') else uuid)"
  using assms unfolding normalizeRequest_def Let_def
  by (auto simp: truthy_or_def split: if_splits)

lemma climbing_normalized:
  "\<exists>r. normalizeRequest ''u0'' raw_climbing = Inr r"
  by (simp add: normalizeRequest_def raw_climbing_def truthy_or_def)

text \<open>
  C3. Every artifact write is to be atomic: written to a temporary file of the same
  directory and renamed into place. In the run of a request with the default outputs,
  \<^verbatim>\<open>page.html\<close> appears by such a rename, but the only effect that makes
  \<^verbatim>\<open>screenshot.png\<close> appear is \<^verbatim>\<open>page.screenshot\<close> with the final path, and
  with step-tracing the only effect that makes \<^verbatim>\<open>step-01.png\<close> appear is again
  \<^verbatim>\<open>page.screenshot\<close> with the final path: no temporary file and no rename.
\<close>

theorem screenshots_written_in_place:
  "[e \<leftarrow> fst (processRequest calm job1 RESPONSES_DIR None).
       creates e = Some ''/srv/ww/responses/job1/screenshot.png'']
     = [Eng (Screenshot ''/srv/ww/responses/job1/screenshot.png'' True)] \<and>
   [e \<leftarrow> fst (processRequest calm job2 RESPONSES_DIR None).
       creates e = Some ''/srv/ww/responses/job2/step-01.png'']
     = [Eng (Screenshot ''/srv/ww/responses/job2/step-01.png'' True)] \<and>
   \<not> renames_into_place (Eng (Screenshot ''/srv/ww/responses/job1/screenshot.png'' True)) \<and>
   [e \<leftarrow> fst (processRequest calm job1 RESPONSES_DIR None).
       creates e = Some ''/srv/ww/responses/job1/page.html'']
     = [Rename ''/srv/ww/responses/job1/.page.html.tmp-u11''
               ''/srv/ww/responses/job1/page.html''] \<and>
   renames_into_place (Rename ''/srv/ww/responses/job1/.page.html.tmp-u11''
               ''/srv/ww/responses/job1/page.html'')"
  by code_simp

text \<open>
  C9, as claimed, fails: an id that is present but not truthy, here the number 0, is
  not used; the job gets a generated identifier instead of \<^verbatim>\<open>String(0)\<close>.
\<close>

theorem normalizeRequest_replaces_falsy_id:
  "map_sum id req_id (normalizeRequest ''generated'' raw_zero_id) = Inr ''generated'' \<and>
   field raw_zero_id ''id'' = JNum 0 \<and> js_String (JNum 0) = ''0''"
  by code_simp

text \<open>
  C9, amended. The output location of a job is \<^verbatim>\<open>path.join\<close> of the responses root
  with the id of the request, and its creation is the first effect of every run; the id
  is \<^verbatim>\<open>String(raw.id)\<close> when \<^verbatim>\<open>raw.id\<close> is truthy, so the caller's string as it is
  whenever the raw request has a non-empty string id, and a generated identifier when
  \<^verbatim>\<open>raw.id\<close> is missing or not truthy; nothing on the way applies \<^verbatim>\<open>safeJoin\<close>.
  For the id \<^verbatim>\<open>../../etc/x\<close> and the responses root \<^verbatim>\<open>/srv/ww/responses\<close> the
  output location is \<^verbatim>\<open>/srv/etc/x\<close>: the run creates its nine files there, the
  temporary ones included, and none of them below the responses root, while
  \<^verbatim>\<open>safeJoin\<close> on the same root and id throws.
\<close>

theorem output_location_unsanitized:
  "(\<exists>rest. fst (processRequest E req responsesDir context) =
       Mkdir (path_join [responsesDir, req_id req]) # rest) \<and>
   (normalizeRequest uuid raw = Inr req' \<longrightarrow>
      (truthy (field raw ''id'') \<longrightarrow> req_id req' = js_String (field raw ''id'')) \<and>
      (\<not> truthy (field raw ''id'') \<longrightarrow> req_id req' = uuid) \<and>
      (\<forall>s. field raw ''id'' = JStr s \<and> s \<noteq> [] \<longrightarrow> req_id req' = s)) \<and>
   (case normalizeRequest ''u0'' raw_climbing of
      Inl e \<Rightarrow> False
    | Inr r \<Rightarrow>
       req_id r = ''../../etc/x'' \<and>
       path_join [RESPONSES_DIR, req_id r] = ''/srv/etc/x'' \<and>
       List.map_filter creates (fst (processRequest calm r RESPONSES_DIR None)) =
         [''/srv/etc/x/.meta.json.tmp-u2'', ''/srv/etc/x/meta.json'',
          ''/srv/etc/x/.page.html.tmp-u11'', ''/srv/etc/x/page.html'',
          ''/srv/etc/x/screenshot.png'',
          ''/srv/etc/x/.meta.json.tmp-u16'', ''/srv/etc/x/meta.json'',
          ''/srv/etc/x/.done.json.tmp-u19'', ''/srv/etc/x/done.json''] \<and>
       list_all (\<lambda>p. \<not> startsWith p (RESPONSES_DIR @ ''/''))
         (List.map_filter creates (fst (processRequest calm r RESPONSES_DIR None))) \<and>
       safeJoin ''/srv/ww'' RESPONSES_DIR (req_id r) = Inl ''Unsafe path resolution: /srv/etc/x'')"
proof -
  have a: "\<exists>rest. fst (processRequest E req responsesDir context) =
       Mkdir (path_join [responsesDir, req_id req]) # rest"
    by (rule processRequest_first_effect)
  have b: "normalizeRequest uuid raw = Inr req' \<longrightarrow>
      (truthy (field raw ''id'') \<longrightarrow> req_id req' = js_String (field raw ''id'')) \<and>
      (\<not> truthy (field raw ''id'') \<longrightarrow> req_id req' = uuid) \<and>
      (\<forall>s. field raw ''id'' = JStr s \<and> s \<noteq> [] \<longrightarrow> req_id req' = s)"
    using normalizeRequest_id [of uuid raw "req'"] by auto
  have c: "case normalizeRequest ''u0'' raw_climbing of
      Inl e \<Rightarrow> False
    | Inr r \<Rightarrow>
       req_id r = ''../../etc/x'' \<and>
       path_join [RESPONSES_DIR, req_id r] = ''/srv/etc/x'' \<and>
       List.map_filter creates (fst (processRequest calm r RESPONSES_DIR None)) =
         [''/srv/etc/x/.meta.json.tmp-u2'', ''/srv/etc/x/meta.json'',
          ''/srv/etc/x/.page.html.tmp-u11'', ''/srv/etc/x/page.html'',
          ''/srv/etc/x/screenshot.png'',
          ''/srv/etc/x/.meta.json.tmp-u16'', ''/srv/etc/x/meta.json'',
          ''/srv/etc/x/.done.json.tmp-u19'', ''/srv/etc/x/done.json''] \<and>
       list_all (\<lambda>p. \<not> startsWith p (RESPONSES_DIR @ ''/''))
         (List.map_filter creates (fst (processRequest calm r RESPONSES_DIR None))) \<and>
       safeJoin ''/srv/ww'' RESPONSES_DIR (req_id r) = Inl ''Unsafe path resolution: /srv/etc/x''"
    by code_simp
  from a b c show ?thesis by (intro conjI)
qed

theorem output_location_unsanitized_witness:
  "\<exists>r. normalizeRequest ''u0'' raw_climbing = Inr r \<and> req_id r = ''../../etc/x'' \<and>
     hd (fst (processRequest calm r RESPONSES_DIR None)) = Mkdir ''/srv/etc/x'' \<and>
     ''/srv/etc/x/done.json'' \<in>
       set (List.map_filter creates (fst (processRequest calm r RESPONSES_DIR None)))"
proof -
  from climbing_normalized obtain r where r: "normalizeRequest ''u0'' raw_climbing = Inr r"
    by blast
  have i: "field raw_climbing ''id'' = JStr ''../../etc/x''"
    by (simp add: raw_climbing_def)
  note t = output_location_unsanitized [of calm r RESPONSES_DIR None "''u0''" raw_climbing r]
  from t r i have id: "req_id r = ''../../etc/x''" by simp
  have pj: "path_join [RESPONSES_DIR, ''../../etc/x''] = ''/srv/etc/x''"
    by code_simp
  from t obtain rest where
    "fst (processRequest calm r RESPONSES_DIR None) =
       Mkdir (path_join [RESPONSES_DIR, req_id r]) # rest"
    by blast
  then have h: "hd (fst (processRequest calm r RESPONSES_DIR None)) = Mkdir ''/srv/etc/x''"
    using id pj by simp
  from t r have "List.map_filter creates (fst (processRequest calm r RESPONSES_DIR None)) =
         [''/srv/etc/x/.meta.json.tmp-u2'', ''/srv/etc/x/meta.json'',
          ''/srv/etc/x/.page.html.tmp-u11'', ''/srv/etc/x/page.html'',
          ''/srv/etc/x/screenshot.png'',
          ''/srv/etc/x/.meta.json.tmp-u16'', ''/srv/etc/x/meta.json'',
          ''/srv/etc/x/.done.json.tmp-u19'', ''/srv/etc/x/done.json'']"
    by simp
  then have "''/srv/etc/x/done.json'' \<in>
       set (List.map_filter creates (fst (processRequest calm r RESPONSES_DIR None)))"
    by simp
  with r id h show ?thesis by blast
qed

section \<open>Properties of the watcher\<close>

text \<open>A handler whose file is gone when it renames still hands its request to the
  limiter: the failure of the rename changes nothing in what follows.\<close>

lemma claim_after_vanish_still_enqueues:
  assumes "handlers w h = Some (Parsed p raw)" and "files w p = None"
    and "normalizeRequest uuid raw = Inr req"
  shows "\<exists>w'. watcher_run [Claim h uuid, EnqueueTask h] w = Some w' \<and>
           files w' = files w \<and>
           enqueued w' = enqueued w @ [(req, path_join [PROCESSING_DIR, req_id req @ ''.json''])]"
  using assms by (simp add: watcher_step_def fs_rename_def Let_def)

text \<open>The same when the rename fails because the directory of the claimed path does
  not exist: the file stays in the inbox, and the request is enqueued.\<close>

lemma claim_into_missing_directory:
  "(case watcher_run [Add 1 ''/srv/ww/requests/a.json'', ReadJSON 1, Claim 1 ''u1'',
                      EnqueueTask 1] inbox_climbing of
      None \<Rightarrow> False
    | Some w \<Rightarrow>
        files w ''/srv/ww/requests/a.json'' = Some (Valid raw_climbing) \<and>
        files w ''/srv/ww/etc/x.json'' = None \<and>
        map (\<lambda>(req, claimedPath). (req_id req, claimedPath)) (enqueued w) =
          [(''../../etc/x'', ''/srv/ww/etc/x.json'')])"
  by code_simp

text \<open>
  C1. When the rename of a validated job file fails because the file no longer exists,
  the job is to be skipped, so that a duplicate delivery is processed once. Two handler
  runs are started for the one file \<^verbatim>\<open>a.json\<close> and both read it before either
  renames. The first rename succeeds; at the second the file is gone, so that rename
  fails; one claimed copy exists. Both runs enqueue their task all the same, and
  \<^verbatim>\<open>processRequest\<close> is called twice for the id \<^verbatim>\<open>j1\<close>. The same
  happens when the identical content arrives as two files: the second rename replaces the
  claimed copy of the first, and both tasks run.
\<close>

theorem duplicate_delivery_processed_twice:
  "(case watcher_run (take 5 duplicate_delivery) inbox of
      None \<Rightarrow> False
    | Some w \<Rightarrow>
        files w ''/srv/ww/requests/a.json'' = None \<and>
        fs_rename ''/srv/ww/requests/a.json'' ''/srv/ww/requests/processing/j1.json'' (files w)
          = None) \<and>
   (case watcher_run duplicate_delivery inbox of
      None \<Rightarrow> False
    | Some w \<Rightarrow>
        files w ''/srv/ww/requests/a.json'' = None \<and>
        files w ''/srv/ww/requests/processing/j1.json'' = Some (Valid raw_j1) \<and>
        map (\<lambda>(req, claimedPath). (req_id req, claimedPath)) (enqueued w) =
          [(''j1'', ''/srv/ww/requests/processing/j1.json''),
           (''j1'', ''/srv/ww/requests/processing/j1.json'')]) \<and>
   (case watcher_run (duplicate_delivery @ [RunTask, RunTask]) inbox of
      None \<Rightarrow> False
    | Some w \<Rightarrow> processed w = [''j1'', ''j1'']) \<and>
   (case watcher_run identical_files inbox_twice of
      None \<Rightarrow> False
    | Some w \<Rightarrow> processed w = [''j1'', ''j1''])"
  by code_simp

text \<open>
  C2. At most one browsing context is to be created per session id, also for
  concurrent first callers. Two tasks with the same new session id both look the
  registry up before either stores its context: two contexts are created for the id, the
  tasks hold different contexts, and the registry keeps the second.
\<close>

theorem concurrent_first_callers_create_two:
  "(case registry_run [Lookup 1, Lookup 2, Publish 1, Publish 2] two_first_callers of
      None \<Rightarrow> False
    | Some r \<Rightarrow>
        created r = [(''s'', 0), (''s'', 1)] \<and>
        tasks r 1 = Some (Holding (Some 0)) \<and>
        tasks r 2 = Some (Holding (Some 1)) \<and>
        sessionContexts r ''s'' = Some 1)"
  by code_simp

text \<open>When the first task has stored its context before the second looks up, the
  second reuses it.\<close>

lemma sequential_first_callers_share:
  "(case registry_run [Lookup 1, Publish 1, Lookup 2] two_first_callers of
      None \<Rightarrow> False
    | Some r \<Rightarrow>
        created r = [(''s'', 0)] \<and>
        tasks r 1 = Some (Holding (Some 0)) \<and>
        tasks r 2 = Some (Holding (Some 0)) \<and>
        sessionContexts r ''s'' = Some 0)"
  by code_simp

lemma getOrCreate_settled:
  assumes "settled r" and "getOrCreate t r = Some r'"
  shows "settled r'"
proof -
  from assms(2) obtain sid where w: "tasks r t = Some (Waiting sid)"
    by (auto simp: getOrCreate_def registry_step_def
        split: option.splits task_state.splits)
  show ?thesis
  proof (cases "\<exists>c cs. sid = JStr (c # cs)")
    case False
    with w assms(2) have "r' = r\<lparr>tasks := (tasks r)(t := Some (Holding None))\<rparr>"
      by (auto simp: getOrCreate_def registry_step_def
          split: json.splits list.splits)
    with assms(1) show ?thesis by (simp add: settled_def)
  next
    case True
    then obtain s where s: "sid = JStr s" "s \<noteq> []" by auto
    show ?thesis
    proof (cases "sessionContexts r s")
      case (Some c)
      with w s assms(2) have "r' = r\<lparr>tasks := (tasks r)(t := Some (Holding (Some c)))\<rparr>"
        by (auto simp: getOrCreate_def registry_step_def split: list.splits)
      with assms(1) show ?thesis by (simp add: settled_def)
    next
      case None
      with w s assms(2) have r': "r' = r\<lparr>created := created r @ [(s, length (created r))],
          sessionContexts := (sessionContexts r)(s := Some (length (created r))),
          tasks := (tasks r)(t := Some (Holding (Some (length (created r)))))\<rparr>"
        by (auto simp: getOrCreate_def registry_step_def split: list.splits)
      from assms(1) have "sessionContexts r s \<noteq> None \<longleftrightarrow> s \<in> fst ` set (created r)"
        unfolding settled_def by blast
      with None have fresh: "s \<notin> fst ` set (created r)"
        by simp
      with assms(1) show ?thesis
        unfolding r' settled_def by auto
    qed
  qed
qed

lemma getOrCreate_all_settled:
  "settled r \<Longrightarrow> getOrCreate_all ts r = Some r' \<Longrightarrow> settled r'"
proof (induction ts arbitrary: r)
  case Nil
  then show ?case by simp
next
  case (Cons t ts)
  then show ?case
    by (auto split: option.splits dest: getOrCreate_settled)
qed

text \<open>When the tasks run one after another, every session id has at most one
  context, whatever the tasks and their order.\<close>

lemma sequential_callers_one_context:
  assumes "getOrCreate_all ts (two_first_callers\<lparr>tasks := waiting\<rparr>) = Some r"
    and "\<forall>t sid context. waiting t \<noteq> Some (Creating sid context)"
  shows "distinct (map fst (created r))"
proof -
  have "settled (two_first_callers\<lparr>tasks := waiting\<rparr>)"
    using assms(2) by (simp add: settled_def two_first_callers_def)
  from getOrCreate_all_settled [OF this assms(1)] show ?thesis
    by (simp add: settled_def)
qed

end
